theory Spec2Isabelle
  imports Complex_Main
begin

section \<open>Values and library operations used by \<open>physo/learn/monitoring.py\<close>\<close>

text \<open>
  A float of a numpy array is either NaN or a number. Numbers are modelled as reals, so
  rounding errors and infinities are outside the model; every comparison with NaN is
  false, as in Python.
\<close>

datatype fl = NaN | Num real

datatype error = ValueError | IndexError | AttributeError | TypeError | ZeroDivisionError
  | Raised string

text \<open>
  Sequencing of steps that may raise: the first exception ends the computation. The
  model gives the exception only, not the partly updated object an interrupted call
  leaves behind.
\<close>

definition bind :: "error + 'a \<Rightarrow> ('a \<Rightarrow> error + 'b) \<Rightarrow> error + 'b" where
  "bind m f = (case m of Inl e \<Rightarrow> Inl e | Inr a \<Rightarrow> f a)"

definition isnan :: "fl \<Rightarrow> bool" where
  "isnan x = (x = NaN)"

fun fl_less :: "fl \<Rightarrow> fl \<Rightarrow> bool" where
  "fl_less (Num a) (Num b) = (a < b)"
| "fl_less _ _ = False"

fun fl_le :: "fl \<Rightarrow> fl \<Rightarrow> bool" where
  "fl_le (Num a) (Num b) = (a \<le> b)"
| "fl_le _ _ = False"

text \<open>\<open>np.maximum\<close> of two floats: NaN propagates.\<close>

fun fmax :: "fl \<Rightarrow> fl \<Rightarrow> fl" where
  "fmax (Num a) (Num b) = Num (max a b)"
| "fmax _ _ = NaN"

text \<open>\<open>a.max()\<close> and \<open>np.max(a)\<close>: ValueError on an empty array, NaN if any entry is NaN.\<close>

definition np_max :: "fl list \<Rightarrow> error + fl" where
  "np_max xs = (case xs of [] \<Rightarrow> Inl ValueError | x # ys \<Rightarrow> Inr (foldl fmax x ys))"

fun index_of :: "'a \<Rightarrow> 'a list \<Rightarrow> nat" where
  "index_of a [] = 0"
| "index_of a (x # xs) = (if x = a then 0 else Suc (index_of a xs))"

text \<open>
  \<open>a.argmax()\<close>: ValueError on an empty array; otherwise the first index holding the
  maximum, where NaN counts as the maximum.
\<close>

definition np_argmax :: "fl list \<Rightarrow> error + nat" where
  "np_argmax xs = (case xs of [] \<Rightarrow> Inl ValueError | x # ys \<Rightarrow> Inr (index_of (foldl fmax x ys) xs))"

fun fadd :: "fl \<Rightarrow> fl \<Rightarrow> fl" where
  "fadd (Num a) (Num b) = Num (a + b)"
| "fadd _ _ = NaN"

definition np_sum :: "fl list \<Rightarrow> fl" where
  "np_sum xs = foldl fadd (Num 0) xs"

text \<open>\<open>a.mean()\<close>: NaN on an empty array (numpy only warns).\<close>

definition np_mean :: "fl list \<Rightarrow> fl" where
  "np_mean xs = (case np_sum xs of NaN \<Rightarrow> NaN
     | Num s \<Rightarrow> if xs = [] then NaN else Num (s / real (length xs)))"

text \<open>\<open>a[i]\<close> for a non-negative index: IndexError out of range.\<close>

definition get_item :: "'a list \<Rightarrow> nat \<Rightarrow> error + 'a" where
  "get_item xs i = (if i < length xs then Inr (xs ! i) else Inl IndexError)"

text \<open>\<open>a[idx]\<close> for an array of non-negative indices.\<close>

fun take_idx :: "'a list \<Rightarrow> nat list \<Rightarrow> error + 'a list" where
  "take_idx xs [] = Inr []"
| "take_idx xs (i # is) =
     bind (get_item xs i) (\<lambda>v. bind (take_idx xs is) (\<lambda>vs. Inr (v # vs)))"

text \<open>\<open>a[mask]\<close> for a boolean mask: IndexError when the lengths differ.\<close>

definition mask_select :: "'a list \<Rightarrow> bool list \<Rightarrow> error + 'a list" where
  "mask_select xs m =
     (if length m = length xs then Inr (map fst (filter snd (zip xs m))) else Inl IndexError)"

text \<open>\<open>np.round\<close> on a number: to the nearest integer, halves to the even neighbour.\<close>

definition np_round :: "real \<Rightarrow> int" where
  "np_round x =
     (let f = \<lfloor>x\<rfloor> in
      if x - of_int f < 1 / 2 then f
      else if 1 / 2 < x - of_int f then f + 1
      else if even f then f else f + 1)"

text \<open>\<open>a.round() == c\<close> for one entry: NaN rounds to NaN, which equals nothing.\<close>

fun rounds_to :: "fl \<Rightarrow> int \<Rightarrow> bool" where
  "rounds_to NaN c = False"
| "rounds_to (Num x) c = (np_round x = c)"


section \<open>The batch, the arguments of \<open>log\<close> and the logger\<close>

text \<open>
  Programs are produced elsewhere and are opaque here; only \<open>get_infix_str\<close> is used.
  A batch carries one entry per program in each of its arrays.
\<close>

datatype prog = Prog string

fun get_infix_str :: "prog \<Rightarrow> string" where
  "get_infix_str (Prog s) = s"

record batch =
  programs :: "prog list"
  tokens_complexity :: "fl list list"
  n_complexity :: "fl list"
  n_lengths :: "nat list"
  is_physical :: "bool list"
  batch_size :: nat
  max_time_step :: nat
  y_target_std :: real

text \<open>\<open>batch.programs.get_prog(i)\<close>.\<close>

definition get_prog :: "batch \<Rightarrow> nat \<Rightarrow> error + prog" where
  "get_prog b i = get_item (programs b) i"

text \<open>
  The arguments of one call of \<open>log\<close> (\<open>model\<close> is not used by it). \<open>keep\<close> and
  \<open>notkept\<close> are arrays of non-negative indices into the batch.
\<close>

record log_args =
  epoch_arg :: int
  batch_arg :: batch
  rewards :: "fl list"
  keep_arg :: "nat list"
  notkept_arg :: "nat list"
  loss_val :: fl

text \<open>
  The three Pareto arrays exist only once \<open>pareto_logger\<close> has run at epoch 0:
  before, reading them raises AttributeError.
\<close>

record pareto =
  pareto_complexities :: "int list"
  pareto_rewards :: "fl list"
  pareto_programs :: "prog option list"

record run_logger =
  save_path :: "string option"
  do_save :: bool
  epoch :: "int option"
  R :: "fl list"
  batch :: "batch option"
  keep :: "nat list"
  notkept :: "nat list"
  best_prog_epoch :: "prog option"
  programs_epoch :: "prog list"
  overall_max_R_history :: "fl list"
  hall_of_fame :: "prog list"
  epochs_history :: "int list"
  loss_history :: "fl list"
  mean_R_train_history :: "fl list"
  mean_R_history :: "fl list"
  max_R_history :: "fl list"
  R_history :: "fl list list"
  R_history_train :: "fl list list"
  best_prog_complexity_history :: "fl list"
  mean_complexity_history :: "fl list"
  n_physical :: "nat list"
  lengths_of_physical :: "nat list list"
  lengths_of_unphysical :: "nat list list"
  pareto_arrays :: "pareto option"

text \<open>\<open>RunLogger.__init__\<close> followed by \<open>initialize\<close>.\<close>

definition initialize :: "string option \<Rightarrow> bool \<Rightarrow> run_logger" where
  "initialize sp ds =
     \<lparr> save_path = sp, do_save = ds, epoch = None, R = [], batch = None, keep = [],
       notkept = [], best_prog_epoch = None, programs_epoch = [],
       overall_max_R_history = [], hall_of_fame = [], epochs_history = [],
       loss_history = [], mean_R_train_history = [], mean_R_history = [],
       max_R_history = [], R_history = [], R_history_train = [],
       best_prog_complexity_history = [], mean_complexity_history = [], n_physical = [],
       lengths_of_physical = [], lengths_of_unphysical = [], pareto_arrays = None \<rparr>"

subsection \<open>The running maximum and the hall of fame (lines 54 to 67)\<close>

text \<open>
  Lines 59 to 67 on the two lists they change: \<open>m\<close> is \<open>rewards.max()\<close> and \<open>best\<close>
  the program at \<open>rewards.argmax()\<close>. Neither branch is taken for a negative epoch.
\<close>

definition update_overall ::
  "int \<Rightarrow> fl list \<times> prog list \<Rightarrow> fl \<Rightarrow> prog \<Rightarrow> error + (fl list \<times> prog list)" where
  "update_overall e hg m best =
     (let overall = fst hg; hof = snd hg in
      if e = 0 then Inr ([m], [best])
      else if 0 < e then
        bind (np_max overall) (\<lambda>prev.
          if fl_less prev m then Inr (overall @ [m], hof @ [best])
          else Inr (overall @ [last overall], hof))
      else Inr (overall, hof))"

definition log_best :: "run_logger \<Rightarrow> log_args \<Rightarrow> error + run_logger" where
  "log_best st a =
     bind (np_argmax (rewards a)) (\<lambda>idx.
     bind (get_prog (batch_arg a) idx) (\<lambda>best.
     bind (np_max (rewards a)) (\<lambda>m.
     bind (update_overall (epoch_arg a) (overall_max_R_history st, hall_of_fame st) m best)
       (\<lambda>hg.
         Inr (st\<lparr> epoch := Some (epoch_arg a), R := rewards a,
                  batch := Some (batch_arg a), keep := keep_arg a,
                  notkept := notkept_arg a, best_prog_epoch := Some best,
                  programs_epoch := programs (batch_arg a),
                  overall_max_R_history := fst hg, hall_of_fame := snd hg \<rparr>)))))"

subsection \<open>The per-epoch histories (lines 69 to 88)\<close>

text \<open>
  Sums and means are taken over the reals. \<open>R_history_array\<close> and
  \<open>R_history_train_array\<close> (lines 83 and 84) are copies of two of the histories, made
  for the plots; they are left out.
\<close>

definition log_stats :: "run_logger \<Rightarrow> log_args \<Rightarrow> error + run_logger" where
  "log_stats st a =
     (let b = batch_arg a in
      bind (take_idx (rewards a) (keep_arg a)) (\<lambda>r_keep.
      bind (np_max (rewards a)) (\<lambda>m.
      bind (np_argmax (rewards a)) (\<lambda>idx.
      bind (get_item (tokens_complexity b) idx) (\<lambda>row.
      bind (mask_select (n_lengths b) (is_physical b)) (\<lambda>l_phys.
      bind (mask_select (n_lengths b) (map Not (is_physical b))) (\<lambda>l_unphys.
        Inr (st\<lparr> epochs_history := epochs_history st @ [epoch_arg a],
                 loss_history := loss_history st @ [loss_val a],
                 mean_R_train_history := mean_R_train_history st @ [np_mean r_keep],
                 mean_R_history := mean_R_history st @ [np_mean (rewards a)],
                 max_R_history := max_R_history st @ [m],
                 R_history := R_history st @ [rewards a],
                 R_history_train := R_history_train st @ [r_keep],
                 best_prog_complexity_history :=
                   best_prog_complexity_history st @ [np_sum row],
                 mean_complexity_history :=
                   mean_complexity_history st @ [np_mean (map np_sum (tokens_complexity b))],
                 n_physical := n_physical st @ [length (filter id (is_physical b))],
                 lengths_of_physical := lengths_of_physical st @ [l_phys],
                 lengths_of_unphysical := lengths_of_unphysical st @ [l_unphys] \<rparr>))))))))"

subsection \<open>\<open>pareto_logger\<close> (lines 122 to 145)\<close>

text \<open>\<open>np.argwhere(curr_complexities.round() == c)\<close>: the indices, in increasing order.\<close>

definition arg_have :: "fl list \<Rightarrow> int \<Rightarrow> nat list" where
  "arg_have cs c = filter (\<lambda>j. rounds_to (cs ! j) c) [0 ..< length cs]"

text \<open>The body of the loop for the bin of complexity \<open>c\<close>, holding reward \<open>r\<close> and program \<open>p\<close>.\<close>

definition pareto_bin ::
  "batch \<Rightarrow> fl list \<Rightarrow> int \<Rightarrow> fl \<Rightarrow> prog option \<Rightarrow> error + (fl \<times> prog option)" where
  "pareto_bin b curr_rewards c r p =
     (let arg_have_c = arg_have (n_complexity b) c in
      if 0 < length arg_have_c then
        bind (take_idx curr_rewards arg_have_c) (\<lambda>rs_c.
        bind (np_argmax rs_c) (\<lambda>k.
        bind (get_item arg_have_c k) (\<lambda>arg_have_c_and_max.
        bind (get_item curr_rewards arg_have_c_and_max) (\<lambda>max_r_at_c.
          if fl_le r max_r_at_c \<or> isnan r then
            bind (get_prog b arg_have_c_and_max) (\<lambda>q. Inr (max_r_at_c, Some q))
          else Inr (r, p)))))
      else Inr (r, p))"

text \<open>The loop over the bins; bin \<open>i\<close> reads and writes entry \<open>i\<close> of both arrays only.\<close>

fun pareto_loop ::
  "batch \<Rightarrow> fl list \<Rightarrow> int list \<Rightarrow> fl list \<Rightarrow> prog option list
     \<Rightarrow> error + (fl list \<times> prog option list)" where
  "pareto_loop b cr [] rs ps = Inr (rs, ps)"
| "pareto_loop b cr (c # cs) (r # rs) (p # ps) =
     bind (pareto_bin b cr c r p) (\<lambda>(r', p').
     bind (pareto_loop b cr cs rs ps) (\<lambda>(rs', ps'). Inr (r' # rs', p' # ps')))"
| "pareto_loop b cr (c # cs) _ _ = Inl IndexError"

definition pareto_logger :: "run_logger \<Rightarrow> error + run_logger" where
  "pareto_logger st =
     (case batch st of None \<Rightarrow> Inl AttributeError | Some curr_batch \<Rightarrow>
      let n = 10 * max_time_step curr_batch;
          pa = (if epoch st = Some 0
                then Some \<lparr> pareto_complexities = map int [0 ..< n],
                            pareto_rewards = replicate n NaN,
                            pareto_programs = replicate n None \<rparr>
                else pareto_arrays st)
      in case pa of None \<Rightarrow> Inl AttributeError | Some pr \<Rightarrow>
           bind (pareto_loop curr_batch (R st) (pareto_complexities pr)
                   (pareto_rewards pr) (pareto_programs pr)) (\<lambda>(rs, ps).
             Inr (st\<lparr> pareto_arrays :=
                        Some (pr\<lparr> pareto_rewards := rs, pareto_programs := ps \<rparr>) \<rparr>)))"

subsection \<open>\<open>save_log\<close> (lines 96 to 119)\<close>

text \<open>
  A CSV file is its list of lines: a header line, or a data row with the seven columns.
  The file system maps a path to the file's lines. \<open>to_csv\<close> with no path writes no file.
\<close>

datatype csv_line = Header "string list" | Row int fl fl nat bool bool string

type_synonym files = "string \<Rightarrow> csv_line list option"

definition csv_columns :: "string list" where
  "csv_columns = [''epoch'', ''reward'', ''complexity'', ''length'', ''is_physical'',
                  ''is_elite'', ''program'']"

text \<open>\<open>is_elite = np.full(n, False); is_elite[keep] = True\<close>.\<close>

definition set_true :: "nat \<Rightarrow> nat list \<Rightarrow> error + bool list" where
  "set_true n ks =
     (if \<forall>k \<in> set ks. k < n then Inr (map (\<lambda>i. i \<in> set ks) [0 ..< n]) else Inl IndexError)"

text \<open>
  Setting a column of the data frame of line 107, whose first column and \<open>is_elite\<close>
  have \<open>n\<close> entries: a column of another length raises ValueError.
\<close>

definition column :: "nat \<Rightarrow> 'a list \<Rightarrow> error + 'a list" where
  "column n xs = (if length xs = n then Inr xs else Inl ValueError)"

definition write_file :: "files \<Rightarrow> string option \<Rightarrow> csv_line list \<Rightarrow> files" where
  "write_file fs path ls = (case path of None \<Rightarrow> fs | Some p \<Rightarrow> fs(p \<mapsto> ls))"

definition append_file :: "files \<Rightarrow> string option \<Rightarrow> csv_line list \<Rightarrow> files" where
  "append_file fs path ls =
     (case path of None \<Rightarrow> fs
      | Some p \<Rightarrow> fs(p \<mapsto> (case fs p of None \<Rightarrow> [] | Some old \<Rightarrow> old) @ ls))"

definition save_log :: "run_logger \<Rightarrow> files \<Rightarrow> error + files" where
  "save_log st fs =
     (case (epoch st, batch st) of
        (Some e, Some b) \<Rightarrow>
          let fs0 = (if e = 0 then write_file fs (save_path st) [Header csv_columns] else fs);
              n = batch_size b
          in bind (set_true n (keep st)) (\<lambda>is_elite.
             bind (column n (R st)) (\<lambda>c_reward.
             bind (column n (n_complexity b)) (\<lambda>c_complexity.
             bind (column n (n_lengths b)) (\<lambda>c_length.
             bind (column n (is_physical b)) (\<lambda>c_physical.
             bind (column n (map get_infix_str (programs b))) (\<lambda>programs_str.
               Inr (append_file fs0 (save_path st)
                      (map (\<lambda>i. Row e (c_reward ! i) (c_complexity ! i) (c_length ! i)
                                   (c_physical ! i) (is_elite ! i) (programs_str ! i))
                           [0 ..< n]))))))))
      | _ \<Rightarrow> Inl AttributeError)"

subsection \<open>\<open>log\<close> and a run of calls\<close>

definition log :: "run_logger \<times> files \<Rightarrow> log_args \<Rightarrow> error + (run_logger \<times> files)" where
  "log sf a =
     bind (log_best (fst sf) a) (\<lambda>st1.
     bind (log_stats st1 a) (\<lambda>st2.
     bind (pareto_logger st2) (\<lambda>st3.
       if do_save st3 then bind (save_log st3 (snd sf)) (\<lambda>fs'. Inr (st3, fs'))
       else Inr (st3, snd sf))))"

fun run :: "run_logger \<times> files \<Rightarrow> log_args list \<Rightarrow> error + (run_logger \<times> files)" where
  "run sf [] = Inr sf"
| "run sf (a # as) = bind (log sf a) (\<lambda>sf'. run sf' as)"


subsection \<open>\<open>get_pareto_front\<close> (lines 147 to 170) and \<open>best_prog\<close>\<close>

text \<open>\<open>(~np.isnan(r)) & (r > 0)\<close> for one entry of \<open>pareto_rewards\<close>.\<close>

definition pareto_valid :: "fl \<Rightarrow> bool" where
  "pareto_valid r = (\<not> isnan r \<and> fl_less (Num 0) r)"

text \<open>
  The loop of line 158 over the valid rewards, entry \<open>i\<close> first; the three fronts are
  the accumulator.
\<close>

fun front_loop ::
  "fl list \<Rightarrow> prog option list \<Rightarrow> int list \<Rightarrow> nat
     \<Rightarrow> fl list \<times> prog option list \<times> int list
     \<Rightarrow> error + (fl list \<times> prog option list \<times> int list)" where
  "front_loop [] pv cv i acc = Inr acc"
| "front_loop (r # rs) pv cv i (fr, fp, fc) =
     (if fl_less (last fr) r then
        bind (get_item pv i) (\<lambda>p.
        bind (get_item cv i) (\<lambda>c.
          front_loop rs pv cv (Suc i) (fr @ [r], fp @ [p], fc @ [c])))
      else front_loop rs pv cv (Suc i) (fr, fp, fc))"

text \<open>\<open>((1/r) - 1) * std\<close> for one entry of the front.\<close>

fun rmse_of :: "real \<Rightarrow> fl \<Rightarrow> fl" where
  "rmse_of std NaN = NaN"
| "rmse_of std (Num r) = Num ((1 / r - 1) * std)"

text \<open>The result: complexities, programs, rewards and RMSEs of the front.\<close>

definition get_pareto_front ::
  "run_logger \<Rightarrow> error + (int list \<times> prog option list \<times> fl list \<times> fl list)" where
  "get_pareto_front st =
     (case pareto_arrays st of None \<Rightarrow> Inl AttributeError | Some pr \<Rightarrow>
      let mask_pareto_valid = map pareto_valid (pareto_rewards pr) in
      bind (mask_select (pareto_rewards pr) mask_pareto_valid) (\<lambda>rv.
      bind (mask_select (pareto_programs pr) mask_pareto_valid) (\<lambda>pv.
      bind (mask_select (pareto_complexities pr) mask_pareto_valid) (\<lambda>cv.
      bind (get_item rv 0) (\<lambda>r0.
      bind (get_item pv 0) (\<lambda>p0.
      bind (get_item cv 0) (\<lambda>c0.
      bind (front_loop rv pv cv 0 ([r0], [p0], [c0])) (\<lambda>(fr, fp, fc).
        case batch st of None \<Rightarrow> Inl AttributeError
        | Some b \<Rightarrow> Inr (fc, fp, fr, map (rmse_of (y_target_std b)) fr)))))))))"

text \<open>\<open>best_prog\<close>: \<open>hall_of_fame[-1]\<close>.\<close>

definition best_prog :: "run_logger \<Rightarrow> error + prog" where
  "best_prog st = (if hall_of_fame st = [] then Inl IndexError else Inr (last (hall_of_fame st)))"

section \<open>The visualiser\<close>

text \<open>\<open>s.split(c)\<close> for a one-character separator.\<close>

fun split_on :: "char \<Rightarrow> string \<Rightarrow> string list" where
  "split_on c [] = [[]]"
| "split_on c (x # xs) =
     (if x = c then [] # split_on c xs
      else (case split_on c xs of [] \<Rightarrow> [[x]] | w # ws \<Rightarrow> (x # w) # ws))"

record run_visualiser =
  epoch_refresh_rate :: int
  figsize :: "nat \<times> nat"
  vis_save_path :: string
  save_path_log :: string
  do_show :: bool
  vis_do_save :: bool
  vis_run_logger :: "run_logger option"
  vis_batch :: "batch option"
  fig :: bool

text \<open>
  \<open>RunVisualiser.__init__\<close>: \<open>save_path.split\<close> is evaluated whatever the flags are, and
  \<open>None\<close> has no \<open>split\<close>.
\<close>

definition visualiser_init ::
  "int \<Rightarrow> string option \<Rightarrow> bool \<Rightarrow> bool \<Rightarrow> error + run_visualiser" where
  "visualiser_init rate sp show_flag save_flag =
     (case sp of None \<Rightarrow> Inl AttributeError
      | Some path \<Rightarrow>
          Inr \<lparr> epoch_refresh_rate = rate, figsize = (40, 18), vis_save_path = path,
                save_path_log = concat (butlast (split_on CHR ''.'' path)) @ ''_log.csv'',
                do_show = show_flag, vis_do_save = save_flag,
                vis_run_logger = None, vis_batch = None, fig = False \<rparr>)"

text \<open>
  Plotting is done by external libraries: a call of \<open>initialize\<close>, \<open>make_visualisation\<close>
  or \<open>save_visualisation\<close> is an event, and the environment says which of them raise.
\<close>

datatype event = Initialize | MakeVisualisation | SaveVisualisation | Print string

record plot_env =
  initialize_raises :: "error option"
  make_visualisation_raises :: "error option"
  save_visualisation_raises :: "error option"

definition unable_msg :: string where
  "unable_msg = ''Unable to make visualisation plots.''"

text \<open>The body of the \<open>try\<close> block with its bare \<open>except\<close> (lines 466 to 472).\<close>

definition try_render :: "plot_env \<Rightarrow> run_visualiser \<Rightarrow> event list" where
  "try_render env v =
     (let save_part =
            (if vis_do_save v then
               (case save_visualisation_raises env of
                  None \<Rightarrow> [SaveVisualisation]
                | Some e \<Rightarrow> [SaveVisualisation, Print unable_msg])
             else [])
      in if do_show v then
           (case make_visualisation_raises env of
              None \<Rightarrow> MakeVisualisation # save_part
            | Some e \<Rightarrow> [MakeVisualisation, Print unable_msg])
         else save_part)"

text \<open>
  \<open>visualise\<close>: the events of the call, and the visualiser or the exception that leaves
  the call. \<open>None == 0\<close> is false and \<open>None % rate\<close> raises TypeError.
\<close>

definition visualise ::
  "plot_env \<Rightarrow> run_visualiser \<Rightarrow> run_logger \<Rightarrow> batch
     \<Rightarrow> event list \<times> (error + run_visualiser)" where
  "visualise env v run_logger b =
     (let v1 = v\<lparr> vis_run_logger := Some run_logger, vis_batch := Some b \<rparr> in
      case epoch run_logger of
        None \<Rightarrow> ([], Inl TypeError)
      | Some ep \<Rightarrow>
          (case (if ep = 0 then initialize_raises env else None) of
             Some e \<Rightarrow> ([Initialize], Inl e)
           | None \<Rightarrow>
               let ev0 = (if ep = 0 then [Initialize] else []);
                   v2 = (if ep = 0 then v1\<lparr> fig := True \<rparr> else v1)
               in if epoch_refresh_rate v2 = 0 then (ev0, Inl ZeroDivisionError)
                  else if ep mod epoch_refresh_rate v2 = 0
                  then (ev0 @ try_render env v2, Inr v2)
                  else (ev0, Inr v2)))"


section \<open>Predicates used in the statements\<close>

text \<open>The call returned normally.\<close>

definition returns :: "error + 'a \<Rightarrow> bool" where
  "returns m = (case m of Inl e \<Rightarrow> False | Inr x \<Rightarrow> True)"

text \<open>None of the twelve per-epoch history lists differs between the two loggers.\<close>

definition histories_same :: "run_logger \<Rightarrow> run_logger \<Rightarrow> bool" where
  "histories_same st st' \<longleftrightarrow>
     epochs_history st' = epochs_history st \<and> loss_history st' = loss_history st
     \<and> mean_R_train_history st' = mean_R_train_history st
     \<and> mean_R_history st' = mean_R_history st \<and> max_R_history st' = max_R_history st
     \<and> R_history st' = R_history st \<and> R_history_train st' = R_history_train st
     \<and> best_prog_complexity_history st' = best_prog_complexity_history st
     \<and> mean_complexity_history st' = mean_complexity_history st
     \<and> n_physical st' = n_physical st \<and> lengths_of_physical st' = lengths_of_physical st
     \<and> lengths_of_unphysical st' = lengths_of_unphysical st"

text \<open>
  Each of the twelve per-epoch history lists of \<open>st'\<close> is the list of \<open>st\<close> with one
  element appended, the epoch \<open>e\<close> in the case of \<open>epochs_history\<close>.
\<close>

definition histories_appended :: "run_logger \<Rightarrow> int \<Rightarrow> run_logger \<Rightarrow> bool" where
  "histories_appended st e st' \<longleftrightarrow>
     epochs_history st' = epochs_history st @ [e]
     \<and> (\<exists>x. loss_history st' = loss_history st @ [x])
     \<and> (\<exists>x. mean_R_train_history st' = mean_R_train_history st @ [x])
     \<and> (\<exists>x. mean_R_history st' = mean_R_history st @ [x])
     \<and> (\<exists>x. max_R_history st' = max_R_history st @ [x])
     \<and> (\<exists>x. R_history st' = R_history st @ [x])
     \<and> (\<exists>x. R_history_train st' = R_history_train st @ [x])
     \<and> (\<exists>x. best_prog_complexity_history st' = best_prog_complexity_history st @ [x])
     \<and> (\<exists>x. mean_complexity_history st' = mean_complexity_history st @ [x])
     \<and> (\<exists>x. n_physical st' = n_physical st @ [x])
     \<and> (\<exists>x. lengths_of_physical st' = lengths_of_physical st @ [x])
     \<and> (\<exists>x. lengths_of_unphysical st' = lengths_of_unphysical st @ [x])"

text \<open>All twelve per-epoch history lists have length \<open>n\<close>.\<close>

definition all_lengths :: "run_logger \<Rightarrow> nat \<Rightarrow> bool" where
  "all_lengths st n \<longleftrightarrow>
     length (epochs_history st) = n \<and> length (loss_history st) = n
     \<and> length (mean_R_train_history st) = n \<and> length (mean_R_history st) = n
     \<and> length (max_R_history st) = n \<and> length (R_history st) = n
     \<and> length (R_history_train st) = n \<and> length (best_prog_complexity_history st) = n
     \<and> length (mean_complexity_history st) = n \<and> length (n_physical st) = n
     \<and> length (lengths_of_physical st) = n \<and> length (lengths_of_unphysical st) = n"

text \<open>The logger holds the arguments of the call \<open>a\<close> (lines 49 to 53).\<close>

definition current_call :: "run_logger \<Rightarrow> log_args \<Rightarrow> bool" where
  "current_call st a \<longleftrightarrow>
     epoch st = Some (epoch_arg a) \<and> R st = rewards a \<and> batch st = Some (batch_arg a)
     \<and> keep st = keep_arg a \<and> notkept st = notkept_arg a"

text \<open>The two loggers have the same \<open>save_path\<close> and \<open>do_save\<close>.\<close>

definition same_config :: "run_logger \<Rightarrow> run_logger \<Rightarrow> bool" where
  "same_config st st' \<longleftrightarrow> save_path st' = save_path st \<and> do_save st' = do_save st"

text \<open>
  The rows of one batch in the CSV log: one per index below \<open>batch_size\<close>, \<open>is_elite\<close>
  being membership in \<open>keep\<close>.
\<close>

definition batch_rows :: "log_args \<Rightarrow> csv_line list" where
  "batch_rows a =
     (let b = batch_arg a in
      map (\<lambda>i. Row (epoch_arg a) (rewards a ! i) (n_complexity b ! i) (n_lengths b ! i)
                  (is_physical b ! i) (i \<in> set (keep_arg a)) (get_infix_str (programs b ! i)))
          [0 ..< batch_size b])"

text \<open>
  A candidate of the Pareto front: the complexity, program and reward of one bin. The
  loop of line 158 is restated on the list of candidates; \<open>front_loop_candidates\<close>
  below shows that it is the same loop.
\<close>

type_synonym candidate = "int \<times> prog option \<times> fl"

definition cand_c :: "candidate \<Rightarrow> int" where
  "cand_c x = fst x"

definition cand_r :: "candidate \<Rightarrow> fl" where
  "cand_r x = snd (snd x)"

fun front_of :: "candidate list \<Rightarrow> candidate list \<Rightarrow> candidate list" where
  "front_of [] acc = acc"
| "front_of (x # xs) acc =
     (if fl_less (cand_r (last acc)) (cand_r x) then front_of xs (acc @ [x]) else front_of xs acc)"

text \<open>\<open>x\<close> has both a smaller complexity and a smaller reward than \<open>y\<close>.\<close>

definition below :: "candidate \<Rightarrow> candidate \<Rightarrow> bool" where
  "below x y \<longleftrightarrow> cand_c x < cand_c y \<and> fl_less (cand_r x) (cand_r y)"

definition cand_p :: "candidate \<Rightarrow> prog option" where
  "cand_p x = fst (snd x)"

text \<open>
  The candidates of the front: the bins whose reward is not NaN and greater than 0,
  by increasing index.
\<close>

definition candidates :: "pareto \<Rightarrow> candidate list" where
  "candidates pr =
     filter (\<lambda>x. pareto_valid (cand_r x))
       (zip (pareto_complexities pr) (zip (pareto_programs pr) (pareto_rewards pr)))"

text \<open>
  The shape of the Pareto arrays, once they exist: the complexities are the grid
  \<open>0, 1, ...\<close>, the three arrays have one length, and the logger holds a batch.
\<close>

definition pareto_wf :: "run_logger \<Rightarrow> bool" where
  "pareto_wf st =
     (case pareto_arrays st of None \<Rightarrow> True
      | Some pr \<Rightarrow>
          batch st \<noteq> None
          \<and> pareto_complexities pr = map int [0 ..< length (pareto_complexities pr)]
          \<and> length (pareto_rewards pr) = length (pareto_complexities pr)
          \<and> length (pareto_programs pr) = length (pareto_complexities pr))"

text \<open>The number held by a float that is not NaN.\<close>

fun num_of :: "fl \<Rightarrow> real" where
  "num_of (Num v) = v"
| "num_of NaN = 0"

text \<open>The greatest element of a finite set of rewards, NaN for the empty set.\<close>

definition best_of :: "real set \<Rightarrow> fl" where
  "best_of S = (if S = {} then NaN else Num (Max S))"

text \<open>
  The rewards of the programs of a batch whose rounded complexity is \<open>c\<close>:
  \<open>cs\<close> are the complexities and \<open>rs\<close> the rewards, by program index.
\<close>

definition seen_in :: "fl list \<Rightarrow> fl list \<Rightarrow> int \<Rightarrow> real set" where
  "seen_in cs rs c =
     {x. \<exists>j. j < length cs \<and> j < length rs \<and> rounds_to (cs ! j) c \<and> rs ! j = Num x}"

text \<open>The same for the batch and the rewards logged by the call \<open>a\<close>.\<close>

definition bin_rewards :: "log_args \<Rightarrow> int \<Rightarrow> real set" where
  "bin_rewards a c = seen_in (n_complexity (batch_arg a)) (rewards a) c"

text \<open>
  The Pareto arrays exist on the grid \<open>0, ..., n - 1\<close> and bin \<open>i\<close> holds the greatest
  reward of the set \<open>S i\<close>.
\<close>

definition pareto_inv :: "run_logger \<Rightarrow> nat \<Rightarrow> (nat \<Rightarrow> real set) \<Rightarrow> bool" where
  "pareto_inv st n S \<longleftrightarrow>
     (\<exists>pr. pareto_arrays st = Some pr \<and> pareto_complexities pr = map int [0 ..< n]
        \<and> length (pareto_rewards pr) = n \<and> length (pareto_programs pr) = n
        \<and> (\<forall>i < n. pareto_rewards pr ! i = best_of (S i)))"

text \<open>The greatest reward of the batch logged by the call \<open>a\<close> (no NaN among them).\<close>

definition epoch_max :: "log_args \<Rightarrow> real" where
  "epoch_max a = Max (num_of ` set (rewards a))"

text \<open>The greatest of the epoch maxima of the calls \<open>0, ..., k\<close>.\<close>

definition running_max :: "log_args list \<Rightarrow> nat \<Rightarrow> real" where
  "running_max as k = Max (epoch_max ` set (take (Suc k) as))"

text \<open>
  After the calls \<open>as\<close>: entry \<open>k\<close> of \<open>overall_max_R_history\<close> is the running maximum
  at \<open>k\<close>, and the last program of the hall of fame is a logged program whose reward is
  the last running maximum.
\<close>

definition overall_inv :: "log_args list \<Rightarrow> run_logger \<Rightarrow> bool" where
  "overall_inv as st \<longleftrightarrow>
     overall_max_R_history st = map (\<lambda>k. Num (running_max as k)) [0 ..< length as]
     \<and> (as \<noteq> [] \<longrightarrow>
          hall_of_fame st \<noteq> []
          \<and> (\<exists>k j. k < length as \<and> j < length (rewards (as ! k))
                \<and> get_prog (batch_arg (as ! k)) j = Inr (last (hall_of_fame st))
                \<and> rewards (as ! k) ! j = Num (running_max as (length as - 1))))"

section \<open>Counting array reads\<close>

text \<open>
  The cost of a call is the number of array entries it reads. What is charged:

  \<^item> an index expression (\<open>a[i]\<close>, \<open>a[0]\<close>, \<open>a[-1]\<close>, \<open>get_prog(i)\<close>) reads one entry,
    each time it is written;
  \<^item> \<open>max\<close>, \<open>argmax\<close>, \<open>std\<close>, \<open>np.array\<close> of a list, a selection by a mask, and an
    expression of element-wise operations (\<open>a.round() == c\<close> under \<open>np.argwhere\<close>, the
    arithmetic of line 168) read every entry of the array once, each time the source
    writes them; the mask of line 150 tests \<open>pareto_rewards\<close> twice and reads it twice;
  \<^item> a selection by an index array reads one entry for every index;
  \<^item> creating an array, writing an entry, appending to a list, \<open>len\<close> and the loop
    variables of a \<open>for\<close> are not charged.

  A counted computation is the result of the embedded function paired with the reads
  made; the reads of an operation that raises are charged, and nothing after it.
\<close>

type_synonym 'a counted = "(error + 'a) \<times> nat"

definition reads :: "nat \<Rightarrow> error + 'a \<Rightarrow> 'a counted" where
  "reads n m = (m, n)"

definition bind_T :: "'a counted \<Rightarrow> ('a \<Rightarrow> 'b counted) \<Rightarrow> 'b counted" where
  "bind_T m f =
     (case fst m of Inl e \<Rightarrow> (Inl e, snd m) | Inr a \<Rightarrow> (fst (f a), snd m + snd (f a)))"

text \<open>
  Lines 59 to 67, for \<open>n\<close> rewards. At epoch 0: \<open>rewards.max()\<close> and \<open>get_prog\<close>. At a
  later epoch: \<open>rewards.max()\<close> and \<open>np.max\<close> over the whole history list (line 63), then
  either \<open>rewards.max()\<close> and \<open>get_prog\<close> again (lines 64 and 65) or the last entry of
  the history (line 67).
\<close>

definition update_overall_T ::
  "int \<Rightarrow> fl list \<times> prog list \<Rightarrow> nat \<Rightarrow> fl \<Rightarrow> prog \<Rightarrow> (fl list \<times> prog list) counted" where
  "update_overall_T e hg n m best =
     (let overall = fst hg; hof = snd hg in
      if e = 0 then reads (n + 1) (Inr ([m], [best]))
      else if 0 < e then
        bind_T (reads (n + length overall) (np_max overall)) (\<lambda>prev.
          if fl_less prev m then reads (n + 1) (Inr (overall @ [m], hof @ [best]))
          else reads 1 (Inr (overall @ [last overall], hof)))
      else reads 0 (Inr (overall, hof)))"

text \<open>
  Lines 54 to 67: \<open>rewards.argmax()\<close> (line 54), \<open>get_prog\<close> (line 55), and the update
  above; line 56 takes the programs of the batch as one array and reads no entry. The
  embedding takes \<open>rewards.max()\<close> once; its reads are charged in the update, at each
  place where the code writes it.
\<close>

definition log_best_T :: "run_logger \<Rightarrow> log_args \<Rightarrow> run_logger counted" where
  "log_best_T st a =
     bind_T (reads (length (rewards a)) (np_argmax (rewards a))) (\<lambda>idx.
     bind_T (reads 1 (get_prog (batch_arg a) idx)) (\<lambda>best.
     bind_T (reads 0 (np_max (rewards a))) (\<lambda>m.
     bind_T (update_overall_T (epoch_arg a) (overall_max_R_history st, hall_of_fame st)
               (length (rewards a)) m best)
       (\<lambda>hg.
         reads 0 (Inr (st\<lparr> epoch := Some (epoch_arg a), R := rewards a,
                  batch := Some (batch_arg a), keep := keep_arg a,
                  notkept := notkept_arg a, best_prog_epoch := Some best,
                  programs_epoch := programs (batch_arg a),
                  overall_max_R_history := fst hg, hall_of_fame := snd hg \<rparr>))))))"

text \<open>
  Lines 136 to 145 for one bin. Line 136 tests every complexity of the batch. With
  \<open>k > 0\<close> matches: line 139 selects their \<open>k\<close> rewards, takes the \<open>argmax\<close> over these
  \<open>k\<close> and reads one entry of \<open>arg_have_c\<close>; line 141 reads one reward; line 143 reads
  \<open>pareto_rewards[i]\<close> once, and once more for \<open>np.isnan\<close> when the comparison is false;
  line 144 reads \<open>arg_have_c_and_max[0]\<close> and the program.
\<close>

definition pareto_bin_T ::
  "batch \<Rightarrow> fl list \<Rightarrow> int \<Rightarrow> fl \<Rightarrow> prog option \<Rightarrow> (fl \<times> prog option) counted" where
  "pareto_bin_T b curr_rewards c r p =
     bind_T (reads (length (n_complexity b)) (Inr (arg_have (n_complexity b) c))) (\<lambda>arg_have_c.
       if 0 < length arg_have_c then
         bind_T (reads (length arg_have_c) (take_idx curr_rewards arg_have_c)) (\<lambda>rs_c.
         bind_T (reads (length rs_c) (np_argmax rs_c)) (\<lambda>k.
         bind_T (reads 1 (get_item arg_have_c k)) (\<lambda>arg_have_c_and_max.
         bind_T (reads 1 (get_item curr_rewards arg_have_c_and_max)) (\<lambda>max_r_at_c.
         bind_T (reads (if fl_le r max_r_at_c then 1 else 2)
                   (Inr (fl_le r max_r_at_c \<or> isnan r))) (\<lambda>replace.
           if replace then
             bind_T (reads 2 (get_prog b arg_have_c_and_max)) (\<lambda>q.
               reads 0 (Inr (max_r_at_c, Some q)))
           else reads 0 (Inr (r, p)))))))
       else reads 0 (Inr (r, p)))"

text \<open>The loop of line 134 over the bins.\<close>

fun pareto_loop_T ::
  "batch \<Rightarrow> fl list \<Rightarrow> int list \<Rightarrow> fl list \<Rightarrow> prog option list
     \<Rightarrow> (fl list \<times> prog option list) counted" where
  "pareto_loop_T b cr [] rs ps = reads 0 (Inr (rs, ps))"
| "pareto_loop_T b cr (c # cs) (r # rs) (p # ps) =
     bind_T (pareto_bin_T b cr c r p) (\<lambda>(r', p').
     bind_T (pareto_loop_T b cr cs rs ps) (\<lambda>(rs', ps'). reads 0 (Inr (r' # rs', p' # ps'))))"
| "pareto_loop_T b cr (c # cs) _ _ = reads 0 (Inl IndexError)"

text \<open>\<open>pareto_logger\<close>: lines 128 to 131 create the arrays and read no entry.\<close>

definition pareto_logger_T :: "run_logger \<Rightarrow> run_logger counted" where
  "pareto_logger_T st =
     (case batch st of None \<Rightarrow> reads 0 (Inl AttributeError) | Some curr_batch \<Rightarrow>
      let n = 10 * max_time_step curr_batch;
          pa = (if epoch st = Some 0
                then Some \<lparr> pareto_complexities = map int [0 ..< n],
                            pareto_rewards = replicate n NaN,
                            pareto_programs = replicate n None \<rparr>
                else pareto_arrays st)
      in case pa of None \<Rightarrow> reads 0 (Inl AttributeError) | Some pr \<Rightarrow>
           bind_T (pareto_loop_T curr_batch (R st) (pareto_complexities pr)
                     (pareto_rewards pr) (pareto_programs pr)) (\<lambda>(rs, ps).
             reads 0 (Inr (st\<lparr> pareto_arrays :=
                        Some (pr\<lparr> pareto_rewards := rs, pareto_programs := ps \<rparr>) \<rparr>))))"

text \<open>
  The loop of line 158: line 160 reads the last reward of the front; lines 162 and 163
  read the program and the complexity of a candidate that is appended.
\<close>

fun front_loop_T ::
  "fl list \<Rightarrow> prog option list \<Rightarrow> int list \<Rightarrow> nat
     \<Rightarrow> fl list \<times> prog option list \<times> int list
     \<Rightarrow> (fl list \<times> prog option list \<times> int list) counted" where
  "front_loop_T [] pv cv i acc = reads 0 (Inr acc)"
| "front_loop_T (r # rs) pv cv i (fr, fp, fc) =
     bind_T (reads 1 (Inr (fl_less (last fr) r))) (\<lambda>higher.
       if higher then
         bind_T (reads 1 (get_item pv i)) (\<lambda>p.
         bind_T (reads 1 (get_item cv i)) (\<lambda>c.
           front_loop_T rs pv cv (Suc i) (fr @ [r], fp @ [p], fc @ [c])))
       else front_loop_T rs pv cv (Suc i) (fr, fp, fc))"

text \<open>
  \<open>get_pareto_front\<close>: the two tests of the mask on every reward (line 150), the three
  selections by the mask (lines 151 to 153), the three first entries (lines 155 to
  157) and the loop; then the three conversions by \<open>np.array\<close>, which read the three
  fronts (lines 165 to 167), and in line 168 the arithmetic, which reads the rewards of
  the front once more, and the standard deviation of \<open>y_target\<close>. The embedding keeps
  the standard deviation only, so the number of entries of \<open>y_target\<close> is the
  parameter \<open>n_target\<close>.
\<close>

definition get_pareto_front_T ::
  "nat \<Rightarrow> run_logger \<Rightarrow> (int list \<times> prog option list \<times> fl list \<times> fl list) counted" where
  "get_pareto_front_T n_target st =
     (case pareto_arrays st of None \<Rightarrow> reads 0 (Inl AttributeError) | Some pr \<Rightarrow>
      bind_T (reads (2 * length (pareto_rewards pr))
                (Inr (map pareto_valid (pareto_rewards pr)))) (\<lambda>mask_pareto_valid.
      bind_T (reads (length (pareto_rewards pr))
                (mask_select (pareto_rewards pr) mask_pareto_valid)) (\<lambda>rv.
      bind_T (reads (length (pareto_programs pr))
                (mask_select (pareto_programs pr) mask_pareto_valid)) (\<lambda>pv.
      bind_T (reads (length (pareto_complexities pr))
                (mask_select (pareto_complexities pr) mask_pareto_valid)) (\<lambda>cv.
      bind_T (reads 1 (get_item rv 0)) (\<lambda>r0.
      bind_T (reads 1 (get_item pv 0)) (\<lambda>p0.
      bind_T (reads 1 (get_item cv 0)) (\<lambda>c0.
      bind_T (front_loop_T rv pv cv 0 ([r0], [p0], [c0])) (\<lambda>(fr, fp, fc).
      bind_T (reads (length fc + length fp + length fr + length fr) (Inr fr)) (\<lambda>front_r.
        case batch st of None \<Rightarrow> reads 0 (Inl AttributeError)
        | Some b \<Rightarrow>
            reads n_target (Inr (fc, fp, fr, map (rmse_of (y_target_std b)) front_r))))))))))))"

section \<open>Example values\<close>

definition ex_batch0 :: batch where
  "ex_batch0 =
     \<lparr> programs = [Prog ''x''], tokens_complexity = [[Num 1]], n_complexity = [Num 1],
       n_lengths = [1], is_physical = [True], batch_size = 1, max_time_step = 1,
       y_target_std = 1 \<rparr>"

definition ex_vis :: run_visualiser where
  "ex_vis =
     \<lparr> epoch_refresh_rate = 10, figsize = (40, 18), vis_save_path = ''run.png'',
       save_path_log = ''run_log.csv'', do_show = True, vis_do_save = True,
       vis_run_logger = None, vis_batch = None, fig = False \<rparr>"

definition ex_env :: "error option \<Rightarrow> error option \<Rightarrow> error option \<Rightarrow> plot_env" where
  "ex_env i m s =
     \<lparr> initialize_raises = i, make_visualisation_raises = m, save_visualisation_raises = s \<rparr>"

definition ex_logger_at :: "int \<Rightarrow> run_logger" where
  "ex_logger_at e = (initialize None False)\<lparr> epoch := Some e \<rparr>"

text \<open>A run of two epochs on a batch of two programs, and the logger it leaves.\<close>

definition ex_batch2 :: batch where
  "ex_batch2 =
     \<lparr> programs = [Prog ''x'', Prog ''x+1''], tokens_complexity = [[Num 1], [Num 1, Num 1]],
       n_complexity = [Num 1, Num 2], n_lengths = [1, 2], is_physical = [True, False],
       batch_size = 2, max_time_step = 1, y_target_std = 1 \<rparr>"

definition ex_args :: "int \<Rightarrow> fl list \<Rightarrow> log_args" where
  "ex_args e rs =
     \<lparr> epoch_arg = e, batch_arg = ex_batch2, rewards = rs, keep_arg = [0], notkept_arg = [1],
       loss_val = Num 0 \<rparr>"

definition ex_run2 :: "log_args list" where
  "ex_run2 = [ex_args 0 [Num (1 / 2), Num (1 / 4)], ex_args 1 [Num (1 / 4), Num (3 / 4)]]"

definition ex_state2 :: run_logger where
  "ex_state2 =
     \<lparr> save_path = None, do_save = False, epoch = Some 1, R = [Num (1 / 4), Num (3 / 4)],
       batch = Some ex_batch2, keep = [0], notkept = [1],
       best_prog_epoch = Some (Prog ''x+1''), programs_epoch = [Prog ''x'', Prog ''x+1''],
       overall_max_R_history = [Num (1 / 2), Num (3 / 4)],
       hall_of_fame = [Prog ''x'', Prog ''x+1''], epochs_history = [0, 1],
       loss_history = [Num 0, Num 0], mean_R_train_history = [Num (1 / 2), Num (1 / 4)],
       mean_R_history = [Num (3 / 8), Num (1 / 2)],
       max_R_history = [Num (1 / 2), Num (3 / 4)],
       R_history = [[Num (1 / 2), Num (1 / 4)], [Num (1 / 4), Num (3 / 4)]],
       R_history_train = [[Num (1 / 2)], [Num (1 / 4)]],
       best_prog_complexity_history = [Num 1, Num 2],
       mean_complexity_history = [Num (3 / 2), Num (3 / 2)], n_physical = [1, 1],
       lengths_of_physical = [[1], [1]], lengths_of_unphysical = [[2], [2]],
       pareto_arrays =
         Some \<lparr> pareto_complexities = [0, 1, 2, 3, 4, 5, 6, 7, 8, 9],
                pareto_rewards =
                  [NaN, Num (1 / 2), Num (3 / 4), NaN, NaN, NaN, NaN, NaN, NaN, NaN],
                pareto_programs =
                  [None, Some (Prog ''x''), Some (Prog ''x+1''), None, None, None, None, None,
                   None, None] \<rparr> \<rparr>"

text \<open>A run of one epoch on four programs, the last with reward 0.\<close>

definition ex_batch4 :: batch where
  "ex_batch4 =
     \<lparr> programs = [Prog ''a'', Prog ''b'', Prog ''c'', Prog ''d''],
       tokens_complexity = [[Num 1], [Num 1, Num 1], [Num 1, Num 1, Num 1], [Num 4]],
       n_complexity = [Num 1, Num 2, Num 3, Num 4], n_lengths = [1, 2, 3, 1],
       is_physical = [True, True, False, True], batch_size = 4, max_time_step = 1,
       y_target_std = 2 \<rparr>"

definition ex_run4 :: "log_args list" where
  "ex_run4 =
     [\<lparr> epoch_arg = 0, batch_arg = ex_batch4,
        rewards = [Num (1 / 2), Num (3 / 4), Num (1 / 4), Num 0], keep_arg = [1, 0],
        notkept_arg = [2, 3], loss_val = Num 0 \<rparr>]"

text \<open>The run of two epochs followed by an epoch that brings no better program.\<close>

definition ex_run3 :: "log_args list" where
  "ex_run3 = ex_run2 @ [ex_args 2 [Num (1 / 4), Num (1 / 2)]]"

text \<open>Two calls with epoch 0: the second one starts the Pareto arrays afresh.\<close>

definition ex_run_reset :: "log_args list" where
  "ex_run_reset = [ex_args 0 [Num (1 / 2), Num (1 / 4)], ex_args 0 [Num (1 / 4), Num (1 / 8)]]"

text \<open>
  One epoch on a single program of complexity 12, outside the grid \<open>0, ..., 9\<close> that
  \<open>max_time_step = 1\<close> gives.
\<close>

definition ex_batch_far :: batch where
  "ex_batch_far =
     \<lparr> programs = [Prog ''y''], tokens_complexity = [[Num 12]], n_complexity = [Num 12],
       n_lengths = [1], is_physical = [True], batch_size = 1, max_time_step = 1,
       y_target_std = 1 \<rparr>"

definition ex_run_far :: "log_args list" where
  "ex_run_far =
     [\<lparr> epoch_arg = 0, batch_arg = ex_batch_far, rewards = [Num (1 / 2)], keep_arg = [0],
        notkept_arg = [], loss_val = Num 0 \<rparr>]"

text \<open>
  A run of two epochs whose second batch of rewards holds a NaN beside the best reward
  of the run.
\<close>

definition ex_run_nan :: "log_args list" where
  "ex_run_nan = [ex_args 0 [Num (1 / 2), Num (1 / 4)], ex_args 1 [NaN, Num (9 / 10)]]"

text \<open>
  The logger when \<open>pareto_logger\<close> is called at epoch 0 on the batch of two programs,
  and a logger at epoch 0 whose batch has no complexity that is a number and whose grid
  has \<open>10 * (k + 1)\<close> bins.
\<close>

definition ex_state0 :: run_logger where
  "ex_state0 =
     (initialize None False)\<lparr> epoch := Some 0, R := [Num (1 / 2), Num (1 / 4)],
                               batch := Some ex_batch2 \<rparr>"

definition ex_state_bins :: "nat \<Rightarrow> run_logger" where
  "ex_state_bins k =
     (initialize None False)\<lparr> epoch := Some 0, R := [Num (1 / 2), Num (1 / 4)],
        batch := Some (ex_batch2\<lparr> n_complexity := [NaN, NaN], max_time_step := k + 1 \<rparr>) \<rparr>"

text \<open>The logger left by the run of two epochs, with a history of \<open>k + 1\<close> entries.\<close>

definition ex_state_long :: "nat \<Rightarrow> run_logger" where
  "ex_state_long k = ex_state2\<lparr> overall_max_R_history := replicate (k + 1) (Num 0) \<rparr>"

section \<open>Sequencing and the library operations\<close>

lemma bind_eq_Inr: "bind m f = Inr y \<longleftrightarrow> (\<exists>x. m = Inr x \<and> f x = Inr y)"
  by (cases m) (simp_all add: bind_def)

lemma bind_eq_Inl: "bind m f = Inl e \<longleftrightarrow> (m = Inl e \<or> (\<exists>x. m = Inr x \<and> f x = Inl e))"
  by (cases m) (simp_all add: bind_def)

lemma bind_Inr [simp]: "bind (Inr x) f = f x"
  by (simp add: bind_def)

lemma bind_Inl [simp]: "bind (Inl e) f = Inl e"
  by (simp add: bind_def)

lemma returns_iff: "returns m \<longleftrightarrow> (\<exists>x. m = Inr x)"
  by (cases m) (simp_all add: returns_def)

lemma run_append: "run sf (as @ bs) = bind (run sf as) (\<lambda>sf'. run sf' bs)"
  by (induction as arbitrary: sf) (simp_all add: bind_def split: sum.splits)

lemma run_snoc: "run sf (as @ [a]) = bind (run sf as) (\<lambda>sf'. log sf' a)"
  by (simp add: run_append bind_def split: sum.splits)

text \<open>The example run, evaluated.\<close>

lemma ex_run2_result:
  "map_sum id fst (run (initialize None False, Map.empty) ex_run2) = Inr ex_state2"
  by code_simp

lemma ex_run2_Inr: "\<exists>fs. run (initialize None False, Map.empty) ex_run2 = Inr (ex_state2, fs)"
  using ex_run2_result
  by (cases "run (initialize None False, Map.empty) ex_run2") auto

section \<open>The visualiser: construction, schedule and exceptions\<close>

text \<open>
  Claim C9. Constructing a \<open>RunVisualiser\<close> with \<open>save_path = None\<close> raises whatever the
  refresh rate and the flags \<open>do_show\<close> and \<open>do_save\<close> are, since the log path is
  derived from \<open>save_path\<close> unconditionally; with a path the construction succeeds.
\<close>

theorem visualiser_init_None_raises:
  "visualiser_init rate None show_flag save_flag = Inl AttributeError
   \<and> (\<exists>v. visualiser_init rate (Some path) show_flag save_flag = Inr v)"
  by (simp add: visualiser_init_def)

text \<open>
  Claim C5, amended. For a logger whose epoch is the number \<open>ep\<close> and a non-zero
  refresh rate (figure creation not raising at epoch 0), \<open>visualise\<close> returns with the
  logger and the batch stored; \<open>initialize\<close> is called exactly at epoch 0;
  \<open>make_visualisation\<close> is called exactly when the rate divides \<open>ep\<close> and \<open>do_show\<close>
  holds; \<open>save_visualisation\<close> is called exactly when the rate divides \<open>ep\<close>, \<open>do_save\<close>
  holds and \<open>make_visualisation\<close>, if \<open>do_show\<close> made it run first, did not raise; at
  every other epoch there is no event at all.
\<close>

theorem visualise_schedule:
  assumes "epoch rl = Some ep" and "epoch_refresh_rate v \<noteq> 0"
    and "ep = 0 \<longrightarrow> initialize_raises env = None"
  shows "snd (visualise env v rl b) =
           Inr (v\<lparr> vis_run_logger := Some rl, vis_batch := Some b, fig := (ep = 0 \<or> fig v) \<rparr>)
       \<and> (Initialize \<in> set (fst (visualise env v rl b)) \<longleftrightarrow> ep = 0)
       \<and> (MakeVisualisation \<in> set (fst (visualise env v rl b)) \<longleftrightarrow>
            epoch_refresh_rate v dvd ep \<and> do_show v)
       \<and> (SaveVisualisation \<in> set (fst (visualise env v rl b)) \<longleftrightarrow>
            epoch_refresh_rate v dvd ep \<and> vis_do_save v
            \<and> (do_show v \<longrightarrow> make_visualisation_raises env = None))
       \<and> (\<not> epoch_refresh_rate v dvd ep \<longrightarrow> fst (visualise env v rl b) = [])"
  using assms
  by (auto simp: visualise_def try_render_def Let_def mod_eq_0_iff_dvd split: option.splits)

theorem visualise_schedule_witness:
  "fst (visualise (ex_env None None None) ex_vis (ex_logger_at 20) ex_batch0)
     = [MakeVisualisation, SaveVisualisation]
   \<and> fst (visualise (ex_env None None None) ex_vis (ex_logger_at 7) ex_batch0) = []
   \<and> Initialize \<in> set (fst (visualise (ex_env None None None) ex_vis (ex_logger_at 0) ex_batch0))
   \<and> SaveVisualisation
       \<in> set (fst (visualise (ex_env None None None) ex_vis (ex_logger_at 0) ex_batch0))"
  using visualise_schedule [of "ex_logger_at 20" 20 ex_vis "ex_env None None None" ex_batch0]
    visualise_schedule [of "ex_logger_at 7" 7 ex_vis "ex_env None None None" ex_batch0]
    visualise_schedule [of "ex_logger_at 0" 0 ex_vis "ex_env None None None" ex_batch0]
  by (simp add: ex_logger_at_def ex_vis_def ex_env_def visualise_def try_render_def
      initialize_def)

text \<open>
  Claim C5 as stated fails when \<open>make_visualisation\<close> raises. At epoch 20, a multiple
  of the refresh rate 10, with \<open>do_show\<close> and \<open>do_save\<close> both set, the call returns and
  \<open>save_visualisation\<close> is not called: the exception leaves the \<open>try\<close> block that holds
  both calls (lines 466 to 472) before the second one.
\<close>

theorem visualise_save_skipped_counterexample:
  "visualise (ex_env None (Some (Raised ''plot'')) None) ex_vis (ex_logger_at 20) ex_batch0
     = ([MakeVisualisation, Print unable_msg],
        Inr (ex_vis\<lparr> vis_run_logger := Some (ex_logger_at 20), vis_batch := Some ex_batch0 \<rparr>))
   \<and> epoch (ex_logger_at 20) = Some 20 \<and> epoch_refresh_rate ex_vis dvd 20
   \<and> do_show ex_vis \<and> vis_do_save ex_vis
   \<and> SaveVisualisation
       \<notin> set (fst (visualise (ex_env None (Some (Raised ''plot'')) None) ex_vis
                      (ex_logger_at 20) ex_batch0))"
  by (simp add: ex_logger_at_def ex_vis_def ex_env_def visualise_def try_render_def
      initialize_def)

text \<open>
  Claim C10. At an epoch where rendering is attempted, \<open>visualise\<close> returns normally
  whatever \<open>make_visualisation\<close> and \<open>save_visualisation\<close> raise, and when one of them
  raises, the last thing it does is print the message. An exception of the figure
  creation at epoch 0 leaves the call.
\<close>

theorem visualise_catches:
  "(epoch rl = Some ep \<and> epoch_refresh_rate v \<noteq> 0 \<and> ep mod epoch_refresh_rate v = 0
      \<and> (ep = 0 \<longrightarrow> initialize_raises env = None)
    \<longrightarrow> (\<exists>v'. snd (visualise env v rl b) = Inr v')
       \<and> ((do_show v \<and> make_visualisation_raises env \<noteq> None)
            \<or> ((do_show v \<longrightarrow> make_visualisation_raises env = None) \<and> vis_do_save v
                  \<and> save_visualisation_raises env \<noteq> None)
          \<longrightarrow> last (fst (visualise env v rl b)) = Print unable_msg))
   \<and> (epoch rl = Some 0 \<and> initialize_raises env = Some e
      \<longrightarrow> visualise env v rl b = ([Initialize], Inl e))"
  by (auto simp: visualise_def try_render_def Let_def split: option.splits)

theorem visualise_catches_witness:
  "visualise (ex_env None (Some (Raised ''plot'')) None) ex_vis (ex_logger_at 20) ex_batch0
     = ([MakeVisualisation, Print unable_msg],
        Inr (ex_vis\<lparr> vis_run_logger := Some (ex_logger_at 20), vis_batch := Some ex_batch0 \<rparr>))
   \<and> visualise (ex_env (Some (Raised ''figure'')) None None) ex_vis (ex_logger_at 0) ex_batch0
     = ([Initialize], Inl (Raised ''figure''))"
  using visualise_catches [of "ex_logger_at 20" 20 ex_vis
      "ex_env None (Some (Raised ''plot'')) None" ex_batch0 "Raised ''figure''"]
    visualise_catches [of "ex_logger_at 0" 0 ex_vis
      "ex_env (Some (Raised ''figure'')) None None" ex_batch0 "Raised ''figure''"]
  by (simp add: ex_logger_at_def ex_vis_def ex_env_def visualise_def try_render_def
      initialize_def)

section \<open>The per-epoch histories\<close>

lemma log_best_histories: "log_best st a = Inr st' \<Longrightarrow> histories_same st st'"
  unfolding log_best_def bind_eq_Inr histories_same_def
  by clarsimp

lemma pareto_logger_histories: "pareto_logger st = Inr st' \<Longrightarrow> histories_same st st'"
  unfolding pareto_logger_def Let_def histories_same_def
  by (clarsimp simp: bind_eq_Inr split: option.splits)

lemma log_stats_histories:
  "log_stats st a = Inr st' \<Longrightarrow> histories_appended st (epoch_arg a) st'"
  unfolding log_stats_def Let_def bind_eq_Inr histories_appended_def
  by clarsimp

lemma log_phases:
  assumes "log (st, fs) a = Inr (st', fs')"
  obtains s1 s2 where "log_best st a = Inr s1" and "log_stats s1 a = Inr s2"
    and "pareto_logger s2 = Inr st'"
    and "if do_save st' then save_log st' fs = Inr fs' else fs' = fs"
  using assms
  by (auto simp: log_def bind_eq_Inr split: if_splits)

lemma log_histories:
  assumes "log (st, fs) a = Inr (st', fs')"
  shows "histories_appended st (epoch_arg a) st'"
proof -
  from assms obtain s1 s2 where 1: "log_best st a = Inr s1" and 2: "log_stats s1 a = Inr s2"
    and 3: "pareto_logger s2 = Inr st'"
    by (rule log_phases)
  from log_best_histories[OF 1] log_stats_histories[OF 2] pareto_logger_histories[OF 3]
  show ?thesis
    by (simp add: histories_same_def histories_appended_def)
qed

lemma appended_lengths:
  "histories_appended st e st' \<Longrightarrow> all_lengths st n \<Longrightarrow> all_lengths st' (Suc n)"
  unfolding histories_appended_def all_lengths_def
  by (elim exE conjE) simp

lemma run_histories:
  "run (st, fs) as = Inr (st', fs') \<Longrightarrow> all_lengths st n \<Longrightarrow>
     all_lengths st' (n + length as) \<and> epochs_history st' = epochs_history st @ map epoch_arg as"
proof (induction as arbitrary: st fs n)
  case Nil
  then show ?case by simp
next
  case (Cons a as)
  from Cons.prems(1) obtain s1 f1 where 1: "log (st, fs) a = Inr (s1, f1)"
    and 2: "run (s1, f1) as = Inr (st', fs')"
    by (auto simp: bind_eq_Inr)
  have h: "histories_appended st (epoch_arg a) s1" by (rule log_histories[OF 1])
  have l: "all_lengths s1 (Suc n)" by (rule appended_lengths[OF h Cons.prems(2)])
  from Cons.IH[OF 2 l] h show ?case
    by (simp add: histories_appended_def)
qed

lemma initialize_lengths: "all_lengths (initialize sp ds) 0"
  by (simp add: all_lengths_def initialize_def)

text \<open>
  Claim C6. A call of \<open>log\<close> that returns has appended exactly one element to each of
  the twelve per-epoch history lists, the epoch itself to \<open>epochs_history\<close>; after the
  calls of a run that starts from \<open>initialize\<close>, every one of these lists has as many
  elements as there were calls and \<open>epochs_history\<close> holds the epochs in call order.
\<close>

theorem log_appends_histories:
  "(log (st, fs) a = Inr (st', fs') \<longrightarrow> histories_appended st (epoch_arg a) st')
   \<and> (run (initialize sp ds, fs0) as = Inr (stn, fsn)
        \<longrightarrow> all_lengths stn (length as) \<and> epochs_history stn = map epoch_arg as)"
proof (intro conjI impI)
  assume "log (st, fs) a = Inr (st', fs')"
  then show "histories_appended st (epoch_arg a) st'" by (rule log_histories)
next
  assume r: "run (initialize sp ds, fs0) as = Inr (stn, fsn)"
  from run_histories[OF r initialize_lengths]
  show "all_lengths stn (length as)" by simp
  from run_histories[OF r initialize_lengths]
  show "epochs_history stn = map epoch_arg as" by (simp add: initialize_def)
qed

theorem log_appends_histories_witness:
  "(\<exists>st fs. log (initialize None False, Map.empty) (ex_args 0 [Num (1 / 2), Num (1 / 4)])
               = Inr (st, fs)
             \<and> histories_appended (initialize None False) 0 st)
   \<and> (\<exists>fs. run (initialize None False, Map.empty) ex_run2 = Inr (ex_state2, fs))
   \<and> all_lengths ex_state2 2 \<and> epochs_history ex_state2 = [0, 1]"
proof -
  have "returns (log (initialize None False, Map.empty) (ex_args 0 [Num (1 / 2), Num (1 / 4)]))"
    by code_simp
  then obtain st fs
    where l: "log (initialize None False, Map.empty) (ex_args 0 [Num (1 / 2), Num (1 / 4)])
                = Inr (st, fs)"
    by (auto simp: returns_iff)
  obtain fs2 where r: "run (initialize None False, Map.empty) ex_run2 = Inr (ex_state2, fs2)"
    using ex_run2_Inr by blast
  have n: "length ex_run2 = 2" and e: "map epoch_arg ex_run2 = [0, 1]"
    by (simp_all add: ex_run2_def ex_args_def)
  have a: "epoch_arg (ex_args 0 [Num (1 / 2), Num (1 / 4)]) = 0"
    by (simp add: ex_args_def)
  from l r
    log_appends_histories [of "initialize None False" Map.empty
      "ex_args 0 [Num (1 / 2), Num (1 / 4)]" st fs None False Map.empty ex_run2 ex_state2 fs2]
  have "histories_appended (initialize None False) 0 st"
    and "all_lengths ex_state2 2" and "epochs_history ex_state2 = [0, 1]"
    unfolding n e a by blast+
  with l r show ?thesis by blast
qed

section \<open>The CSV log\<close>

lemma log_best_current: "log_best st a = Inr st' \<Longrightarrow> current_call st' a \<and> same_config st st'"
  unfolding log_best_def bind_eq_Inr current_call_def same_config_def
  by clarsimp

lemma log_stats_current:
  "log_stats st a = Inr st' \<Longrightarrow> current_call st b \<Longrightarrow> current_call st' b \<and> same_config st st'"
  unfolding log_stats_def Let_def bind_eq_Inr current_call_def same_config_def
  by clarsimp

lemma pareto_logger_current:
  "pareto_logger st = Inr st' \<Longrightarrow> current_call st b \<Longrightarrow> current_call st' b \<and> same_config st st'"
  unfolding pareto_logger_def Let_def current_call_def same_config_def
  by (clarsimp simp: bind_eq_Inr split: option.splits)

lemma log_current:
  assumes "log (st, fs) a = Inr (st', fs')"
  shows "current_call st' a \<and> same_config st st'"
proof -
  from assms obtain s1 s2 where 1: "log_best st a = Inr s1" and 2: "log_stats s1 a = Inr s2"
    and 3: "pareto_logger s2 = Inr st'"
    by (rule log_phases)
  from log_best_current[OF 1] have c1: "current_call s1 a" and k1: "same_config st s1" by simp_all
  from log_stats_current[OF 2 c1] have c2: "current_call s2 a" and k2: "same_config s1 s2"
    by simp_all
  from pareto_logger_current[OF 3 c2] k1 k2 show ?thesis
    by (simp add: same_config_def)
qed

lemma save_log_rows:
  assumes "save_log st fs = Inr fs'" and "current_call st a" and "save_path st = Some p"
  shows "fs' = fs(p \<mapsto> (if epoch_arg a = 0 then [Header csv_columns]
                         else (case fs p of None \<Rightarrow> [] | Some old \<Rightarrow> old)) @ batch_rows a)"
  using assms
  unfolding save_log_def current_call_def batch_rows_def
  by (auto simp: bind_eq_Inr Let_def set_true_def column_def write_file_def append_file_def
      split: if_splits)

text \<open>
  Claim C4. When \<open>do_save\<close> is true and \<open>save_path\<close> is a path, a call of \<open>log\<close>
  that returns leaves every other file as it was and the file at \<open>save_path\<close> as its
  former lines (at epoch 0: the header line alone, whatever the file held) followed by
  exactly \<open>batch_size\<close> rows, row \<open>i\<close> holding the epoch, reward, complexity, length,
  \<open>is_physical\<close>, \<open>is_elite\<close> and infix string of program \<open>i\<close>, with \<open>is_elite\<close>
  true exactly when \<open>i\<close> is in \<open>keep\<close>.
\<close>

theorem log_saves_rows:
  assumes "do_save st" and "save_path st = Some p" and "log (st, fs) a = Inr (st', fs')"
  shows "fs' = fs(p \<mapsto> (if epoch_arg a = 0 then [Header csv_columns]
                         else (case fs p of None \<Rightarrow> [] | Some old \<Rightarrow> old)) @ batch_rows a)
       \<and> length (batch_rows a) = batch_size (batch_arg a)
       \<and> (\<forall>i < batch_size (batch_arg a).
             batch_rows a ! i =
               Row (epoch_arg a) (rewards a ! i) (n_complexity (batch_arg a) ! i)
                 (n_lengths (batch_arg a) ! i) (is_physical (batch_arg a) ! i)
                 (i \<in> set (keep_arg a)) (get_infix_str (programs (batch_arg a) ! i)))"
proof -
  from log_current[OF assms(3)] have c: "current_call st' a" and k: "same_config st st'"
    by simp_all
  from assms(3) obtain s1 s2 where "if do_save st' then save_log st' fs = Inr fs' else fs' = fs"
    by (rule log_phases)
  with k assms(1) have s: "save_log st' fs = Inr fs'" by (simp add: same_config_def)
  from k assms(2) have p: "save_path st' = Some p" by (simp add: same_config_def)
  from save_log_rows[OF s c p] show ?thesis
    by (simp add: batch_rows_def Let_def)
qed

theorem log_saves_rows_witness:
  "\<exists>st fs. log (initialize (Some ''log.csv'') True, Map.empty)
               (ex_args 0 [Num (1 / 2), Num (1 / 4)]) = Inr (st, fs)
     \<and> fs ''log.csv'' =
         Some [Header csv_columns, Row 0 (Num (1 / 2)) (Num 1) 1 True True ''x'',
               Row 0 (Num (1 / 4)) (Num 2) 2 False False ''x+1'']"
proof -
  let ?a = "ex_args 0 [Num (1 / 2), Num (1 / 4)]"
  have "returns (log (initialize (Some ''log.csv'') True, Map.empty) ?a)"
    by code_simp
  then obtain st fs
    where l: "log (initialize (Some ''log.csv'') True, Map.empty) ?a = Inr (st, fs)"
    by (auto simp: returns_iff)
  have d: "do_save (initialize (Some ''log.csv'') True)"
    and p: "save_path (initialize (Some ''log.csv'') True) = Some ''log.csv''"
    by (simp_all add: initialize_def)
  have r: "batch_rows ?a = [Row 0 (Num (1 / 2)) (Num 1) 1 True True ''x'',
                            Row 0 (Num (1 / 4)) (Num 2) 2 False False ''x+1'']"
    by code_simp
  have e: "epoch_arg ?a = 0" by (simp add: ex_args_def)
  from log_saves_rows [OF d p l]
  have "fs ''log.csv'' = Some ([Header csv_columns] @ batch_rows ?a)"
    unfolding e by simp
  with l r show ?thesis by simp
qed

section \<open>The Pareto front\<close>

lemma fl_less_trans: "fl_less a b \<Longrightarrow> fl_less b c \<Longrightarrow> fl_less a c"
  by (cases a; cases b; cases c) auto

lemma fl_less_irrefl [simp]: "\<not> fl_less a a"
  by (cases a) auto

lemma front_of_prefix: "\<exists>ys. front_of xs acc = acc @ ys \<and> set ys \<subseteq> set xs"
proof (induction xs arbitrary: acc)
  case Nil
  then show ?case by simp
next
  case (Cons x xs)
  show ?case
  proof (cases "fl_less (cand_r (last acc)) (cand_r x)")
    case True
    from Cons.IH[of "acc @ [x]"] obtain ys where "front_of xs (acc @ [x]) = (acc @ [x]) @ ys"
      and "set ys \<subseteq> set xs" by blast
    with True show ?thesis by (intro exI[of _ "x # ys"]) auto
  next
    case False
    from Cons.IH[of acc] obtain ys where "front_of xs acc = acc @ ys" and "set ys \<subseteq> set xs"
      by blast
    with False show ?thesis by (intro exI[of _ ys]) auto
  qed
qed

lemma sorted_wrt_below_last:
  assumes "sorted_wrt below acc" and "y \<in> set acc" and "y \<noteq> last acc"
  shows "below y (last acc)"
proof -
  from assms(2) have ne: "acc \<noteq> []" by auto
  then have acc: "acc = butlast acc @ [last acc]" by simp
  with assms(2,3) have "y \<in> set (butlast acc)"
    by (metis Un_iff empty_iff empty_set set_ConsD set_append)
  moreover from assms(1) acc have "sorted_wrt below (butlast acc @ [last acc])" by simp
  ultimately show ?thesis by (simp add: sorted_wrt_append)
qed

lemma sorted_below_snoc:
  assumes "sorted_wrt below acc" and "acc \<noteq> []"
    and "\<forall>a \<in> set acc. cand_c a < cand_c x"
    and "fl_less (cand_r (last acc)) (cand_r x)"
  shows "sorted_wrt below (acc @ [x])"
proof -
  have "below a x" if "a \<in> set acc" for a
  proof (cases "a = last acc")
    case True
    with assms(3,4) that show ?thesis by (simp add: below_def)
  next
    case False
    from sorted_wrt_below_last[OF assms(1) that False]
    have "fl_less (cand_r a) (cand_r (last acc))" by (simp add: below_def)
    from this assms(4) have "fl_less (cand_r a) (cand_r x)" by (rule fl_less_trans)
    with assms(3) that show ?thesis by (simp add: below_def)
  qed
  with assms(1) show ?thesis by (simp add: sorted_wrt_append)
qed

lemma front_of_sorted:
  assumes "sorted_wrt below acc" and "acc \<noteq> []"
    and "\<forall>a \<in> set acc. \<forall>x \<in> set xs. cand_c a < cand_c x"
    and "sorted_wrt (\<lambda>x y. cand_c x < cand_c y) xs"
  shows "sorted_wrt below (front_of xs acc)"
  using assms
proof (induction xs arbitrary: acc)
  case Nil
  then show ?case by simp
next
  case (Cons x xs)
  show ?case
  proof (cases "fl_less (cand_r (last acc)) (cand_r x)")
    case True
    have "sorted_wrt below (acc @ [x])"
      using Cons.prems(1,2,3) True by (intro sorted_below_snoc) simp_all
    moreover have "\<forall>a \<in> set (acc @ [x]). \<forall>y \<in> set xs. cand_c a < cand_c y"
      using Cons.prems(3,4) by auto
    moreover have "sorted_wrt (\<lambda>x y. cand_c x < cand_c y) xs" using Cons.prems(4) by simp
    ultimately have "sorted_wrt below (front_of xs (acc @ [x]))"
      by (intro Cons.IH) simp_all
    with True show ?thesis by simp
  next
    case False
    have "sorted_wrt below (front_of xs acc)"
      using Cons.prems by (intro Cons.IH) simp_all
    with False show ?thesis by simp
  qed
qed

lemma front_of_included:
  assumes "sorted_wrt below acc" and "acc \<noteq> []"
    and "\<forall>a \<in> set acc. \<forall>x \<in> set xs. cand_c a < cand_c x"
    and "sorted_wrt (\<lambda>x y. cand_c x < cand_c y) xs"
    and "x \<in> set xs"
  shows "x \<in> set (front_of xs acc) \<longleftrightarrow>
           (\<forall>y \<in> set (front_of xs acc). cand_c y < cand_c x \<longrightarrow> fl_less (cand_r y) (cand_r x))"
  using assms
proof (induction xs arbitrary: acc)
  case Nil
  then show ?case by simp
next
  case (Cons z zs)
  have zs_gt: "\<forall>y \<in> set zs. cand_c z < cand_c y" using Cons.prems(4) by simp
  show ?case
  proof (cases "fl_less (cand_r (last acc)) (cand_r z)")
    case True
    then have res: "front_of (z # zs) acc = front_of zs (acc @ [z])" by simp
    have s1: "sorted_wrt below (acc @ [z])"
      using Cons.prems(1,2,3) True by (intro sorted_below_snoc) simp_all
    have s3: "\<forall>a \<in> set (acc @ [z]). \<forall>y \<in> set zs. cand_c a < cand_c y"
      using Cons.prems(3) zs_gt by auto
    have s4: "sorted_wrt (\<lambda>x y. cand_c x < cand_c y) zs" using Cons.prems(4) by simp
    show ?thesis
    proof (cases "x = z")
      case xz: True
      obtain ys where ys: "front_of zs (acc @ [z]) = (acc @ [z]) @ ys" "set ys \<subseteq> set zs"
        using front_of_prefix by blast
      have "x \<in> set (front_of (z # zs) acc)" using res ys xz by simp
      moreover have "fl_less (cand_r y) (cand_r x)"
        if "y \<in> set (front_of (z # zs) acc)" "cand_c y < cand_c x" for y
      proof -
        from that(1) res ys have "y \<in> set acc \<or> y = z \<or> y \<in> set ys" by auto
        moreover have "y \<noteq> z" using that(2) xz by auto
        moreover have "y \<notin> set ys" using that(2) xz ys(2) zs_gt by fastforce
        ultimately have "y \<in> set acc" by blast
        with s1 xz show ?thesis by (auto simp: sorted_wrt_append below_def)
      qed
      ultimately show ?thesis by blast
    next
      case False
      with Cons.prems(5) have "x \<in> set zs" by simp
      from Cons.IH[OF s1 _ s3 s4 this] res show ?thesis by simp
    qed
  next
    case False
    then have res: "front_of (z # zs) acc = front_of zs acc" by simp
    have s3: "\<forall>a \<in> set acc. \<forall>y \<in> set zs. cand_c a < cand_c y"
      using Cons.prems(3) by auto
    have s4: "sorted_wrt (\<lambda>x y. cand_c x < cand_c y) zs" using Cons.prems(4) by simp
    show ?thesis
    proof (cases "x = z")
      case xz: True
      obtain ys where ys: "front_of zs acc = acc @ ys" "set ys \<subseteq> set zs"
        using front_of_prefix by blast
      have "x \<notin> set acc" using Cons.prems(3) xz by auto
      moreover have "x \<notin> set ys" using ys(2) zs_gt xz by fastforce
      ultimately have "x \<notin> set (front_of (z # zs) acc)" using res ys by simp
      moreover have "last acc \<in> set (front_of (z # zs) acc)"
        using res ys Cons.prems(2) by simp
      moreover have "cand_c (last acc) < cand_c x" using Cons.prems(2,3) xz by simp
      ultimately show ?thesis using False xz by blast
    next
      case False
      with Cons.prems(5) have "x \<in> set zs" by simp
      from Cons.IH[OF Cons.prems(1,2) s3 s4 this] res show ?thesis by simp
    qed
  qed
qed

lemma mask_select_filter:
  "length ys = length xs \<Longrightarrow>
     mask_select xs (map P ys) = Inr (map fst (filter (\<lambda>x. P (snd x)) (zip xs ys)))"
proof -
  assume l: "length ys = length xs"
  then have "map fst (filter snd (zip xs (map P ys))) = map fst (filter (\<lambda>x. P (snd x)) (zip xs ys))"
    by (induction ys xs rule: list_induct2) simp_all
  with l show ?thesis by (simp add: mask_select_def)
qed

lemma mask_select_length_error:
  "length m \<noteq> length xs \<Longrightarrow> mask_select xs m = Inl IndexError"
  by (simp add: mask_select_def)

lemma candidates_columns:
  assumes "length cs = length ps" and "length ps = length rs"
  shows "map fst (filter (\<lambda>x. pareto_valid (snd x)) (zip cs rs))
           = map cand_c (filter (\<lambda>x. pareto_valid (cand_r x)) (zip cs (zip ps rs)))
       \<and> map fst (filter (\<lambda>x. pareto_valid (snd x)) (zip ps rs))
           = map cand_p (filter (\<lambda>x. pareto_valid (cand_r x)) (zip cs (zip ps rs)))
       \<and> map fst (filter (\<lambda>x. pareto_valid (snd x)) (zip rs rs))
           = map cand_r (filter (\<lambda>x. pareto_valid (cand_r x)) (zip cs (zip ps rs)))"
  using assms
  by (induction cs ps rs rule: list_induct3) (simp_all add: cand_c_def cand_p_def cand_r_def)

lemma unzip_candidates:
  assumes "length fc = length fp" and "length fp = length fr"
  shows "map cand_c (zip fc (zip fp fr)) = fc \<and> map cand_p (zip fc (zip fp fr)) = fp
       \<and> map cand_r (zip fc (zip fp fr)) = fr"
  using assms
  by (induction fc fp fr rule: list_induct3) (simp_all add: cand_c_def cand_p_def cand_r_def)

lemma last_zip3:
  assumes "length fp = length fr" and "length fc = length fr" and "fr \<noteq> []"
  shows "cand_r (last (zip fc (zip fp fr))) = last fr"
proof -
  from assms have "zip fc (zip fp fr) \<noteq> []" by (cases fc; cases fp; cases fr) auto
  then have "last (zip fc (zip fp fr)) = zip fc (zip fp fr) ! (length fr - 1)"
    using assms by (simp add: last_conv_nth)
  with assms show ?thesis by (simp add: cand_r_def last_conv_nth)
qed

lemma front_loop_candidates:
  assumes "length fp = length fr" and "length fc = length fr" and "fr \<noteq> []"
    and "i \<le> length xs"
  shows "front_loop (map cand_r (drop i xs)) (map cand_p xs) (map cand_c xs) i (fr, fp, fc)
           = (let f = front_of (drop i xs) (zip fc (zip fp fr))
              in Inr (map cand_r f, map cand_p f, map cand_c f))"
  using assms
proof (induction "length xs - i" arbitrary: i fr fp fc)
  case 0
  then show ?case using unzip_candidates[of fc fp fr] by simp
next
  case (Suc n)
  then have i: "i < length xs" by simp
  then have d: "drop i xs = xs ! i # drop (Suc i) xs" by (simp add: Cons_nth_drop_Suc)
  have n: "n = length xs - Suc i" using Suc.hyps(2) by simp
  have l: "cand_r (last (zip fc (zip fp fr))) = last fr"
    using Suc.prems by (intro last_zip3)
  show ?case
  proof (cases "fl_less (last fr) (cand_r (xs ! i))")
    case True
    have "front_loop (map cand_r (drop (Suc i) xs)) (map cand_p xs) (map cand_c xs) (Suc i)
            (fr @ [cand_r (xs ! i)], fp @ [cand_p (xs ! i)], fc @ [cand_c (xs ! i)])
          = (let f = front_of (drop (Suc i) xs)
                       (zip (fc @ [cand_c (xs ! i)])
                          (zip (fp @ [cand_p (xs ! i)]) (fr @ [cand_r (xs ! i)])))
             in Inr (map cand_r f, map cand_p f, map cand_c f))"
      using Suc.prems i by (intro Suc.hyps(1)[OF n]) simp_all
    moreover have "zip (fc @ [cand_c (xs ! i)])
                     (zip (fp @ [cand_p (xs ! i)]) (fr @ [cand_r (xs ! i)]))
                   = zip fc (zip fp fr) @ [xs ! i]"
      using Suc.prems by (simp add: cand_c_def cand_p_def cand_r_def)
    ultimately show ?thesis using True i d l
      by (simp add: get_item_def)
  next
    case False
    have "front_loop (map cand_r (drop (Suc i) xs)) (map cand_p xs) (map cand_c xs) (Suc i)
            (fr, fp, fc)
          = (let f = front_of (drop (Suc i) xs) (zip fc (zip fp fr))
             in Inr (map cand_r f, map cand_p f, map cand_c f))"
      using Suc.prems i by (intro Suc.hyps(1)[OF n]) simp_all
    then show ?thesis using False i d l by simp
  qed
qed

lemma get_pareto_front_eq:
  assumes pa: "pareto_arrays st = Some pr"
    and lr: "length (pareto_rewards pr) = length (pareto_complexities pr)"
    and lp: "length (pareto_programs pr) = length (pareto_complexities pr)"
    and b: "batch st = Some b"
  shows "get_pareto_front st =
           (case candidates pr of
              [] \<Rightarrow> Inl IndexError
            | x # xs \<Rightarrow>
                let f = front_of (x # xs) [x]
                in Inr (map cand_c f, map cand_p f, map cand_r f,
                        map (rmse_of (y_target_std b)) (map cand_r f)))"
proof -
  let ?cs = "pareto_complexities pr" and ?ps = "pareto_programs pr" and ?rs = "pareto_rewards pr"
  let ?m = "map pareto_valid ?rs"
  have cols: "map fst (filter (\<lambda>x. pareto_valid (snd x)) (zip ?cs ?rs)) = map cand_c (candidates pr)"
    "map fst (filter (\<lambda>x. pareto_valid (snd x)) (zip ?ps ?rs)) = map cand_p (candidates pr)"
    "map fst (filter (\<lambda>x. pareto_valid (snd x)) (zip ?rs ?rs)) = map cand_r (candidates pr)"
    using candidates_columns[of ?cs ?ps ?rs] lr lp by (simp_all add: candidates_def)
  have rv: "mask_select ?rs ?m = Inr (map cand_r (candidates pr))"
    using mask_select_filter[of ?rs ?rs pareto_valid] cols by simp
  have pv: "mask_select ?ps ?m = Inr (map cand_p (candidates pr))"
    using mask_select_filter[of ?rs ?ps pareto_valid] cols lr lp by simp
  have cv: "mask_select ?cs ?m = Inr (map cand_c (candidates pr))"
    using mask_select_filter[of ?rs ?cs pareto_valid] cols lr by simp
  show ?thesis
  proof (cases "candidates pr")
    case Nil
    with pa rv pv cv show ?thesis
      by (simp add: get_pareto_front_def get_item_def)
  next
    case (Cons x xs)
    have z: "zip [cand_c x] (zip [cand_p x] [cand_r x]) = [x]"
      by (simp add: cand_c_def cand_p_def cand_r_def)
    have "front_loop (map cand_r (drop 0 (x # xs))) (map cand_p (x # xs)) (map cand_c (x # xs)) 0
            ([cand_r x], [cand_p x], [cand_c x])
          = (let f = front_of (drop 0 (x # xs)) (zip [cand_c x] (zip [cand_p x] [cand_r x]))
             in Inr (map cand_r f, map cand_p f, map cand_c f))"
      by (intro front_loop_candidates) simp_all
    then have fl: "front_loop (map cand_r (x # xs)) (map cand_p (x # xs)) (map cand_c (x # xs)) 0
            ([cand_r x], [cand_p x], [cand_c x])
          = (let f = front_of (x # xs) [x] in Inr (map cand_r f, map cand_p f, map cand_c f))"
      unfolding z by simp
    show ?thesis
      unfolding get_pareto_front_def pa Let_def option.case rv pv cv Cons bind_Inr
      using fl b
      by (simp add: get_item_def Let_def del: front_loop.simps front_of.simps)
  qed
qed

lemma pareto_loop_length:
  "pareto_loop b cr cs rs ps = Inr (rs', ps') \<Longrightarrow> length rs = length cs \<Longrightarrow>
     length ps = length cs \<Longrightarrow> length rs' = length cs \<and> length ps' = length cs"
  by (induction b cr cs rs ps arbitrary: rs' ps' rule: pareto_loop.induct)
    (fastforce simp: bind_eq_Inr)+

lemma log_best_wf: "log_best st a = Inr st' \<Longrightarrow> pareto_wf st \<Longrightarrow> pareto_wf st'"
  unfolding log_best_def bind_eq_Inr pareto_wf_def
  by (clarsimp split: option.splits)

lemma log_stats_wf: "log_stats st a = Inr st' \<Longrightarrow> pareto_wf st \<Longrightarrow> pareto_wf st'"
  unfolding log_stats_def Let_def bind_eq_Inr pareto_wf_def
  by (clarsimp split: option.splits)

lemma pareto_logger_wf:
  assumes "pareto_logger st = Inr st'" and "pareto_wf st"
  shows "pareto_wf st' \<and> pareto_arrays st' \<noteq> None"
proof -
  from assms(1) obtain cb where cb: "batch st = Some cb"
    by (auto simp: pareto_logger_def split: option.splits)
  define n where "n = 10 * max_time_step cb"
  define pa where "pa = (if epoch st = Some 0
                then Some \<lparr> pareto_complexities = map int [0 ..< n],
                            pareto_rewards = replicate n NaN,
                            pareto_programs = replicate n None \<rparr>
                else pareto_arrays st)"
  from assms(1) cb obtain pr rs ps where pr: "pa = Some pr"
    and l: "pareto_loop cb (R st) (pareto_complexities pr) (pareto_rewards pr) (pareto_programs pr)
              = Inr (rs, ps)"
    and st': "st' = st\<lparr> pareto_arrays := Some (pr\<lparr> pareto_rewards := rs, pareto_programs := ps \<rparr>) \<rparr>"
    unfolding pareto_logger_def Let_def pa_def n_def
    by (auto simp: bind_eq_Inr split: option.splits)
  have w: "pareto_complexities pr = map int [0 ..< length (pareto_complexities pr)]
         \<and> length (pareto_rewards pr) = length (pareto_complexities pr)
         \<and> length (pareto_programs pr) = length (pareto_complexities pr)"
  proof (cases "epoch st = Some 0")
    case True
    with pr show ?thesis by (auto simp: pa_def)
  next
    case False
    with pr assms(2) show ?thesis by (auto simp: pa_def pareto_wf_def)
  qed
  from pareto_loop_length[OF l] w have "length rs = length (pareto_complexities pr)"
    "length ps = length (pareto_complexities pr)" by simp_all
  with w st' cb show ?thesis by (simp add: pareto_wf_def)
qed

lemma log_wf:
  assumes "log (st, fs) a = Inr (st', fs')" and "pareto_wf st"
  shows "pareto_wf st' \<and> pareto_arrays st' \<noteq> None"
proof -
  from assms(1) obtain s1 s2 where 1: "log_best st a = Inr s1" and 2: "log_stats s1 a = Inr s2"
    and 3: "pareto_logger s2 = Inr st'"
    by (rule log_phases)
  from log_stats_wf[OF 2 log_best_wf[OF 1 assms(2)]] have "pareto_wf s2" .
  with 3 show ?thesis by (rule pareto_logger_wf)
qed

lemma run_wf:
  "run (st, fs) as = Inr (st', fs') \<Longrightarrow> pareto_wf st \<Longrightarrow>
     pareto_wf st' \<and> (as \<noteq> [] \<longrightarrow> pareto_arrays st' \<noteq> None)"
proof (induction as arbitrary: st' fs' rule: rev_induct)
  case Nil
  then show ?case by simp
next
  case (snoc a as)
  from snoc.prems(1) obtain s1 f1 where 1: "run (st, fs) as = Inr (s1, f1)"
    and 2: "log (s1, f1) a = Inr (st', fs')"
    by (auto simp: run_snoc bind_eq_Inr)
  from snoc.IH[OF 1 snoc.prems(2)] have "pareto_wf s1" by simp
  from log_wf[OF 2 this] show ?case by simp
qed

lemma initialize_wf: "pareto_wf (initialize sp ds)"
  by (simp add: pareto_wf_def initialize_def)

lemma zip_candidates: "zip (map cand_c f) (zip (map cand_p f) (map cand_r f)) = f"
  by (induction f) (simp_all add: cand_c_def cand_p_def cand_r_def)

lemma candidates_sorted:
  assumes "pareto_complexities pr = map int [0 ..< length (pareto_complexities pr)]"
    and "length (pareto_rewards pr) = length (pareto_complexities pr)"
    and "length (pareto_programs pr) = length (pareto_complexities pr)"
  shows "sorted_wrt (\<lambda>x y. cand_c x < cand_c y) (candidates pr)"
proof -
  let ?z = "zip (pareto_complexities pr) (zip (pareto_programs pr) (pareto_rewards pr))"
  have "sorted_wrt (<) (map int [0 ..< length (pareto_complexities pr)])"
    by (simp add: sorted_wrt_map)
  with assms(1) have "sorted_wrt (<) (pareto_complexities pr)" by simp
  moreover have "map cand_c ?z = pareto_complexities pr"
    unfolding cand_c_def using assms(2,3) by simp
  ultimately have "sorted_wrt (\<lambda>x y. cand_c x < cand_c y) ?z"
    by (simp add: sorted_wrt_map[symmetric] del: map_fst_zip)
  then show ?thesis
    unfolding candidates_def by (rule sorted_wrt_filter)
qed

text \<open>
  Claim C3. On a logger reached by a run of \<open>log\<close> calls, a call of
  \<open>get_pareto_front\<close> that returns gives four arrays of one length, with strictly
  increasing complexities and strictly increasing rewards. There is a candidate (a bin
  with a reward that is not NaN and greater than 0); the front starts with the first
  candidate, which has the lowest complexity; the front holds candidates only; and a
  candidate is in the front exactly when its reward is greater than the reward of
  every member of the front of smaller complexity.
\<close>

theorem pareto_front_characterised:
  assumes "run (initialize sp ds, fs0) as = Inr (st, fs)"
    and "pareto_arrays st = Some pr"
    and "get_pareto_front st = Inr (fc, fp, fr, frmse)"
  shows "length fp = length fc \<and> length fr = length fc \<and> length frmse = length fc
     \<and> sorted_wrt (<) fc \<and> sorted_wrt fl_less fr
     \<and> candidates pr \<noteq> []
     \<and> (\<forall>x \<in> set (candidates pr). cand_c (hd (candidates pr)) \<le> cand_c x)
     \<and> hd (zip fc (zip fp fr)) = hd (candidates pr)
     \<and> set (zip fc (zip fp fr)) \<subseteq> set (candidates pr)
     \<and> (\<forall>x \<in> set (candidates pr).
           x \<in> set (zip fc (zip fp fr)) \<longleftrightarrow>
             (\<forall>y \<in> set (zip fc (zip fp fr)).
                 cand_c y < cand_c x \<longrightarrow> fl_less (cand_r y) (cand_r x)))"
proof -
  from run_wf[OF assms(1) initialize_wf] have wf: "pareto_wf st" by simp
  with assms(2) obtain b where b: "batch st = Some b"
    and grid: "pareto_complexities pr = map int [0 ..< length (pareto_complexities pr)]"
    and lr: "length (pareto_rewards pr) = length (pareto_complexities pr)"
    and lp: "length (pareto_programs pr) = length (pareto_complexities pr)"
    by (auto simp: pareto_wf_def)
  note eq = get_pareto_front_eq[OF assms(2) lr lp b]
  from eq assms(3) obtain x xs where c: "candidates pr = x # xs"
    by (cases "candidates pr") auto
  define f where "f = front_of xs [x]"
  have fx: "front_of (x # xs) [x] = f" by (simp add: f_def)
  from eq assms(3) c have res: "fc = map cand_c f" "fp = map cand_p f" "fr = map cand_r f"
    "frmse = map (rmse_of (y_target_std b)) (map cand_r f)"
    unfolding c list.case Let_def fx by simp_all
  have z: "zip fc (zip fp fr) = f" unfolding res by (rule zip_candidates)
  from candidates_sorted[OF grid lr lp] c
  have sx: "\<forall>y \<in> set xs. cand_c x < cand_c y" and sxs: "sorted_wrt (\<lambda>x y. cand_c x < cand_c y) xs"
    by simp_all
  have a1: "sorted_wrt below [x]" and a2: "[x] \<noteq> []"
    and a3: "\<forall>a \<in> set [x]. \<forall>y \<in> set xs. cand_c a < cand_c y"
    using sx by simp_all
  obtain ys where ys: "f = [x] @ ys" "set ys \<subseteq> set xs"
    unfolding f_def using front_of_prefix by blast
  have sorted: "sorted_wrt below f"
    unfolding f_def by (rule front_of_sorted[OF a1 a2 a3 sxs])
  have s1: "sorted_wrt (<) fc"
    using sorted unfolding res sorted_wrt_map
    by (rule sorted_wrt_mono_rel[rotated]) (simp add: below_def)
  have s2: "sorted_wrt fl_less fr"
    using sorted unfolding res sorted_wrt_map
    by (rule sorted_wrt_mono_rel[rotated]) (simp add: below_def)
  have incl: "y \<in> set f \<longleftrightarrow> (\<forall>w \<in> set f. cand_c w < cand_c y \<longrightarrow> fl_less (cand_r w) (cand_r y))"
    if "y \<in> set (candidates pr)" for y
  proof (cases "y = x")
    case True
    have "\<not> cand_c w < cand_c x" if "w \<in> set f" for w
      using that ys sx by fastforce
    with True ys show ?thesis by auto
  next
    case False
    with that c have "y \<in> set xs" by simp
    from front_of_included[OF a1 a2 a3 sxs this] show ?thesis by (simp add: f_def)
  qed
  have low: "\<forall>y \<in> set (candidates pr). cand_c (hd (candidates pr)) \<le> cand_c y"
    using c sx by fastforce
  have sub: "set f \<subseteq> set (candidates pr)" using ys c by auto
  have h: "hd f = hd (candidates pr)" using ys c by simp
  show ?thesis
    unfolding z using s1 s2 c low h sub incl by (simp add: res)
qed

lemma ex_run4_front:
  "map_sum id (\<lambda>sf. (get_pareto_front (fst sf), map_option candidates (pareto_arrays (fst sf))))
     (run (initialize None False, Map.empty) ex_run4)
   = Inr (Inr ([1, 2], [Some (Prog ''a''), Some (Prog ''b'')], [Num (1 / 2), Num (3 / 4)],
               [Num 2, Num (2 / 3)]),
          Some [(1, Some (Prog ''a''), Num (1 / 2)), (2, Some (Prog ''b''), Num (3 / 4)),
                (3, Some (Prog ''c''), Num (1 / 4))])"
  by code_simp

theorem pareto_front_characterised_witness:
  "\<exists>st fs pr. run (initialize None False, Map.empty) ex_run4 = Inr (st, fs)
     \<and> pareto_arrays st = Some pr
     \<and> get_pareto_front st =
         Inr ([1, 2], [Some (Prog ''a''), Some (Prog ''b'')], [Num (1 / 2), Num (3 / 4)],
              [Num 2, Num (2 / 3)])
     \<and> candidates pr =
         [(1, Some (Prog ''a''), Num (1 / 2)), (2, Some (Prog ''b''), Num (3 / 4)),
          (3, Some (Prog ''c''), Num (1 / 4))]
     \<and> sorted_wrt fl_less [Num (1 / 2), Num (3 / 4)]
     \<and> set (zip [1, 2] (zip [Some (Prog ''a''), Some (Prog ''b'')] [Num (1 / 2), Num (3 / 4)]))
         \<subseteq> set (candidates pr)"
proof -
  from ex_run4_front obtain st fs pr
    where r: "run (initialize None False, Map.empty) ex_run4 = Inr (st, fs)"
      and p: "pareto_arrays st = Some pr"
      and g: "get_pareto_front st =
                Inr ([1, 2], [Some (Prog ''a''), Some (Prog ''b'')], [Num (1 / 2), Num (3 / 4)],
                     [Num 2, Num (2 / 3)])"
      and c: "candidates pr =
                [(1, Some (Prog ''a''), Num (1 / 2)), (2, Some (Prog ''b''), Num (3 / 4)),
                 (3, Some (Prog ''c''), Num (1 / 4))]"
    by (cases "run (initialize None False, Map.empty) ex_run4") auto
  from pareto_front_characterised [OF r p g]
  have "sorted_wrt fl_less [Num (1 / 2), Num (3 / 4)]"
    and "set (zip [1, 2] (zip [Some (Prog ''a''), Some (Prog ''b'')] [Num (1 / 2), Num (3 / 4)]))
           \<subseteq> set (candidates pr)"
    by blast+
  with r p g c show ?thesis by blast
qed

section \<open>The Pareto arrays hold the best reward of every bin\<close>

lemma Num_num_of: "x \<noteq> NaN \<Longrightarrow> Num (num_of x) = x"
  by (cases x) simp_all

lemma nan_free_map: "NaN \<notin> set xs \<Longrightarrow> xs = map Num (map num_of xs)"
  by (induction xs) (auto simp: Num_num_of)

lemma foldl_fmax_Num: "foldl fmax (Num a) (map Num vs) = Num (fold max vs a)"
  by (induction vs arbitrary: a) (simp_all add: max.commute)

lemma fold_max_Max: "fold max ws v = Max (set (v # ws))"
  by (rule Max.set_eq_fold[symmetric])

lemma np_max_Num: "vs \<noteq> [] \<Longrightarrow> np_max (map Num vs) = Inr (Num (Max (set vs)))"
  by (cases vs) (simp_all add: np_max_def foldl_fmax_Num fold_max_Max del: set_simps)

lemma index_of_mem: "a \<in> set xs \<Longrightarrow> index_of a xs < length xs \<and> xs ! index_of a xs = a"
  by (induction xs) auto

lemma np_argmax_Num:
  assumes "vs \<noteq> []"
  shows "\<exists>k. np_argmax (map Num vs) = Inr k \<and> k < length vs \<and> vs ! k = Max (set vs)"
proof -
  define M where "M = Max (set vs)"
  define k where "k = index_of (Num M) (map Num vs)"
  from assms obtain v ws where vs: "vs = v # ws" by (cases vs) auto
  have "foldl fmax (Num v) (map Num ws) = Num M"
    by (simp add: M_def vs foldl_fmax_Num fold_max_Max del: set_simps)
  then have a: "np_argmax (map Num vs) = Inr k"
    by (simp add: np_argmax_def vs k_def del: index_of.simps)
  have "M \<in> set vs" unfolding M_def using assms by (intro Max_in) simp_all
  then have "Num M \<in> set (map Num vs)" by simp
  from index_of_mem[OF this] have "k < length vs" and "map Num vs ! k = Num M"
    by (simp_all add: k_def)
  then have "k < length vs" and "vs ! k = M" by simp_all
  with a show ?thesis unfolding M_def by blast
qed

lemma take_idx_Inr:
  "take_idx xs is = Inr vs \<longleftrightarrow> (\<forall>i \<in> set is. i < length xs) \<and> vs = map ((!) xs) is"
  by (induction "is" arbitrary: vs) (auto simp: bind_eq_Inr get_item_def)

lemma best_of_Un:
  assumes "finite S" and "finite V" and "V \<noteq> {}"
  shows "(case best_of S of NaN \<Rightarrow> Num (Max V) | Num x \<Rightarrow> Num (max x (Max V))) = best_of (S \<union> V)"
  using assms by (auto simp: best_of_def Max_Un)

lemma finite_seen_in: "finite (seen_in cs rs c)"
proof -
  have "seen_in cs rs c \<subseteq> (\<lambda>j. num_of (rs ! j)) ` {..< length cs}"
    by (auto simp: seen_in_def image_iff) (metis lessThan_iff num_of.simps(1))
  then show ?thesis by (rule finite_subset) simp
qed

lemma set_arg_have: "set (arg_have cs c) = {j. j < length cs \<and> rounds_to (cs ! j) c}"
  by (auto simp: arg_have_def)

lemma pareto_bin_value:
  assumes ok: "pareto_bin b rs c r p = Inr (r', p')" and nan: "NaN \<notin> set rs"
  shows "r' = (if seen_in (n_complexity b) rs c = {} then r
               else (case r of NaN \<Rightarrow> Num (Max (seen_in (n_complexity b) rs c))
                     | Num x \<Rightarrow> Num (max x (Max (seen_in (n_complexity b) rs c)))))"
proof (cases "arg_have (n_complexity b) c = []")
  case True
  then have "seen_in (n_complexity b) rs c = {}"
    using set_arg_have[of "n_complexity b" c] by (auto simp: seen_in_def)
  with ok True show ?thesis by (simp add: pareto_bin_def)
next
  case False
  define idx where "idx = arg_have (n_complexity b) c"
  from False have ne: "idx \<noteq> []" by (simp add: idx_def)
  from ok ne obtain vals k where t: "take_idx rs idx = Inr vals"
    and a: "np_argmax vals = Inr k"
    and rest: "bind (get_item idx k) (\<lambda>j. bind (get_item rs j) (\<lambda>m.
                 if fl_le r m \<or> isnan r
                 then bind (get_prog b j) (\<lambda>q. Inr (m, Some q)) else Inr (r, p))) = Inr (r', p')"
    unfolding pareto_bin_def Let_def idx_def[symmetric] by (auto simp: bind_eq_Inr)
  from t have range: "\<forall>j \<in> set idx. j < length rs" and vals: "vals = map ((!) rs) idx"
    by (simp_all add: take_idx_Inr)
  define ws where "ws = map num_of vals"
  have "NaN \<notin> set vals" using nan range vals by (auto simp: in_set_conv_nth)
  then have vw: "vals = map Num ws" unfolding ws_def by (rule nan_free_map)
  have wne: "ws \<noteq> []" using ne vals by (simp add: ws_def)
  from np_argmax_Num[OF wne] a vw have k: "k < length ws" and wk: "ws ! k = Max (set ws)"
    by auto
  have kl: "k < length idx" using k by (simp add: ws_def vals)
  have "rs ! (idx ! k) = vals ! k" using kl by (simp add: vals)
  also have "\<dots> = Num (Max (set ws))" using k wk by (simp add: vw)
  finally have m: "rs ! (idx ! k) = Num (Max (set ws))" .
  have jr: "idx ! k < length rs" using range kl by simp
  have seen: "set ws = seen_in (n_complexity b) rs c"
  proof (intro set_eqI iffI)
    fix x assume "x \<in> set ws"
    then obtain j where j: "j \<in> set idx" and x: "x = num_of (rs ! j)"
      by (auto simp: ws_def vals)
    from j range nan have "rs ! j \<noteq> NaN" by (metis nth_mem)
    then have "rs ! j = Num x" using x by (simp add: Num_num_of)
    with j range show "x \<in> seen_in (n_complexity b) rs c"
      using set_arg_have[of "n_complexity b" c] by (auto simp: seen_in_def idx_def)
  next
    fix x assume "x \<in> seen_in (n_complexity b) rs c"
    then obtain j where "j \<in> set idx" and "rs ! j = Num x"
      using set_arg_have[of "n_complexity b" c] by (auto simp: seen_in_def idx_def)
    then show "x \<in> set ws" by (force simp: ws_def vals image_iff)
  qed
  have sne: "seen_in (n_complexity b) rs c \<noteq> {}" using seen wne by auto
  from rest kl jr m
  have "r' = (if fl_le r (Num (Max (set ws))) \<or> isnan r then Num (Max (set ws)) else r)"
    by (auto simp: get_item_def bind_eq_Inr split: if_splits)
  then show ?thesis
    unfolding seen[symmetric] using sne seen
    by (cases r) (auto simp: isnan_def max_def)
qed

lemma pareto_bin_best:
  assumes "pareto_bin b rs c r p = Inr (r', p')" and "NaN \<notin> set rs"
    and "r = best_of S" and "finite S"
  shows "r' = best_of (S \<union> seen_in (n_complexity b) rs c)"
proof (cases "seen_in (n_complexity b) rs c = {}")
  case True
  with pareto_bin_value[OF assms(1,2)] assms(3) show ?thesis by simp
next
  case False
  with pareto_bin_value[OF assms(1,2)] assms(3)
    best_of_Un[OF assms(4) finite_seen_in False]
  show ?thesis by simp
qed

lemma pareto_loop_nth:
  "pareto_loop b cr cs rs ps = Inr (rs', ps') \<Longrightarrow> length rs = length cs \<Longrightarrow>
     length ps = length cs \<Longrightarrow> i < length cs \<Longrightarrow>
     \<exists>p'. pareto_bin b cr (cs ! i) (rs ! i) (ps ! i) = Inr (rs' ! i, p')"
proof (induction b cr cs rs ps arbitrary: rs' ps' i rule: pareto_loop.induct)
  case (2 b cr c cs r rs p ps)
  from "2.prems"(1) obtain r1 p1 rs2 ps2 where h: "pareto_bin b cr c r p = Inr (r1, p1)"
    and l: "pareto_loop b cr cs rs ps = Inr (rs2, ps2)" and e: "rs' = r1 # rs2" "ps' = p1 # ps2"
    by (auto simp: bind_eq_Inr)
  show ?case
  proof (cases i)
    case 0
    with h e show ?thesis by simp
  next
    case (Suc k)
    have "\<exists>p'. pareto_bin b cr (cs ! k) (rs ! k) (ps ! k) = Inr (rs2 ! k, p')"
      using "2.prems"(2,3,4) Suc by (intro "2.IH"[OF l]) simp_all
    with Suc e show ?thesis by simp
  qed
qed simp_all

lemma pareto_loop_best:
  assumes "pareto_loop b cr (map int [0 ..< n]) rs ps = Inr (rs', ps')"
    and "length rs = n" and "length ps = n" and "NaN \<notin> set cr"
    and "\<forall>i < n. rs ! i = best_of (S i)" and "\<forall>i. finite (S i)"
  shows "length rs' = n \<and> length ps' = n
       \<and> (\<forall>i < n. rs' ! i = best_of (S i \<union> seen_in (n_complexity b) cr (int i)))"
proof -
  from pareto_loop_length[OF assms(1)] assms(2,3)
  have "length rs' = n" "length ps' = n" by simp_all
  moreover have "rs' ! i = best_of (S i \<union> seen_in (n_complexity b) cr (int i))" if "i < n" for i
  proof -
    from pareto_loop_nth[OF assms(1), of i] assms(2,3) that
    obtain p' where "pareto_bin b cr (int i) (rs ! i) (ps ! i) = Inr (rs' ! i, p')"
      by auto
    from pareto_bin_best[OF this assms(4)] assms(5,6) that show ?thesis by simp
  qed
  ultimately show ?thesis by simp
qed

lemma pareto_logger_inv:
  assumes ok: "pareto_logger st = Inr st'" and b: "batch st = Some b"
    and nan: "NaN \<notin> set (R st)"
    and start: "if epoch st = Some 0 then n = 10 * max_time_step b \<and> S = (\<lambda>i. {})
                else pareto_inv st n S"
    and fin: "\<forall>i. finite (S i)"
  shows "pareto_inv st' n (\<lambda>i. S i \<union> seen_in (n_complexity b) (R st) (int i))"
proof -
  define pa where "pa = (if epoch st = Some 0
                then Some \<lparr> pareto_complexities = map int [0 ..< 10 * max_time_step b],
                            pareto_rewards = replicate (10 * max_time_step b) NaN,
                            pareto_programs = replicate (10 * max_time_step b) None \<rparr>
                else pareto_arrays st)"
  from ok b obtain pr rs ps where pr: "pa = Some pr"
    and l: "pareto_loop b (R st) (pareto_complexities pr) (pareto_rewards pr) (pareto_programs pr)
              = Inr (rs, ps)"
    and st': "st' = st\<lparr> pareto_arrays := Some (pr\<lparr> pareto_rewards := rs, pareto_programs := ps \<rparr>) \<rparr>"
    unfolding pareto_logger_def Let_def pa_def
    by (auto simp: bind_eq_Inr split: option.splits)
  have w: "pareto_complexities pr = map int [0 ..< n] \<and> length (pareto_rewards pr) = n
         \<and> length (pareto_programs pr) = n \<and> (\<forall>i < n. pareto_rewards pr ! i = best_of (S i))"
  proof (cases "epoch st = Some 0")
    case True
    with pr start show ?thesis by (auto simp: pa_def best_of_def)
  next
    case False
    with pr start show ?thesis by (auto simp: pa_def pareto_inv_def)
  qed
  from l w have l': "pareto_loop b (R st) (map int [0 ..< n]) (pareto_rewards pr) (pareto_programs pr)
              = Inr (rs, ps)" by simp
  from pareto_loop_best[OF l' _ _ nan _ fin] w
  have "length rs = n \<and> length ps = n
       \<and> (\<forall>i < n. rs ! i = best_of (S i \<union> seen_in (n_complexity b) (R st) (int i)))"
    by simp
  with w st' show ?thesis by (simp add: pareto_inv_def)
qed

lemma log_best_pareto: "log_best st a = Inr st' \<Longrightarrow> pareto_arrays st' = pareto_arrays st"
  unfolding log_best_def bind_eq_Inr
  by clarsimp

lemma log_stats_pareto: "log_stats st a = Inr st' \<Longrightarrow> pareto_arrays st' = pareto_arrays st"
  unfolding log_stats_def Let_def bind_eq_Inr
  by clarsimp

lemma log_pareto_inv:
  assumes ok: "log (st, fs) a = Inr (st', fs')" and nan: "NaN \<notin> set (rewards a)"
    and start: "if epoch_arg a = 0 then n = 10 * max_time_step (batch_arg a) \<and> S = (\<lambda>i. {})
                else pareto_inv st n S"
    and fin: "\<forall>i. finite (S i)"
  shows "pareto_inv st' n (\<lambda>i. S i \<union> bin_rewards a (int i))"
proof -
  from ok obtain s1 s2 where 1: "log_best st a = Inr s1" and 2: "log_stats s1 a = Inr s2"
    and 3: "pareto_logger s2 = Inr st'"
    by (rule log_phases)
  from log_best_current[OF 1] have c1: "current_call s1 a" by simp
  from log_stats_current[OF 2 c1] have c2: "current_call s2 a" by simp
  have p: "pareto_arrays s2 = pareto_arrays st"
    using log_best_pareto[OF 1] log_stats_pareto[OF 2] by simp
  from c2 have e: "epoch s2 = Some (epoch_arg a)" and r: "R s2 = rewards a"
    and b: "batch s2 = Some (batch_arg a)"
    by (simp_all add: current_call_def)
  have start2: "if epoch s2 = Some 0 then n = 10 * max_time_step (batch_arg a) \<and> S = (\<lambda>i. {})
                else pareto_inv s2 n S"
    using start e p by (auto simp: pareto_inv_def)
  from pareto_logger_inv[OF 3 b _ start2 fin] nan r show ?thesis
    by (simp add: bin_rewards_def)
qed

lemma run_pareto_inv:
  "run (st, fs) as = Inr (st', fs') \<Longrightarrow> pareto_inv st n S \<Longrightarrow> \<forall>i. finite (S i) \<Longrightarrow>
     \<forall>a \<in> set as. epoch_arg a \<noteq> 0 \<and> NaN \<notin> set (rewards a) \<Longrightarrow>
     pareto_inv st' n (\<lambda>i. S i \<union> (\<Union>a \<in> set as. bin_rewards a (int i)))"
proof (induction as arbitrary: st fs S)
  case Nil
  then show ?case by simp
next
  case (Cons a as)
  from Cons.prems(1) obtain s1 f1 where 1: "log (st, fs) a = Inr (s1, f1)"
    and 2: "run (s1, f1) as = Inr (st', fs')"
    by (auto simp: bind_eq_Inr)
  have i1: "pareto_inv s1 n (\<lambda>i. S i \<union> bin_rewards a (int i))"
    using Cons.prems(2,3,4) by (intro log_pareto_inv[OF 1]) simp_all
  have f1: "\<forall>i. finite (S i \<union> bin_rewards a (int i))"
    using Cons.prems(3) by (simp add: bin_rewards_def finite_seen_in)
  from Cons.IH[OF 2 i1 f1] Cons.prems(4)
  have "pareto_inv st' n
          (\<lambda>i. (S i \<union> bin_rewards a (int i)) \<union> (\<Union>a \<in> set as. bin_rewards a (int i)))"
    by simp
  then show ?case by (simp add: Un_assoc)
qed

text \<open>
  Claim C2. After a run of \<open>log\<close> calls that starts with epoch 0, has no further
  epoch 0 and logs no NaN reward, the Pareto arrays exist, the complexities are the
  grid from 0 to \<open>10 * max_time_step - 1\<close> (of the first batch), and for every index
  \<open>i\<close> of the grid \<open>pareto_rewards[i]\<close> is the greatest reward, over all logged calls,
  of the programs whose rounded complexity is \<open>i\<close>, and NaN when there is none. As
  the run is arbitrary, this holds after every call.
\<close>

theorem pareto_rewards_running_max:
  assumes "run (initialize sp ds, fs0) (a0 # as) = Inr (st, fs)"
    and "epoch_arg a0 = 0" and "\<forall>a \<in> set as. epoch_arg a \<noteq> 0"
    and "\<forall>a \<in> set (a0 # as). NaN \<notin> set (rewards a)"
  shows "\<exists>pr. pareto_arrays st = Some pr
     \<and> pareto_complexities pr = map int [0 ..< 10 * max_time_step (batch_arg a0)]
     \<and> length (pareto_rewards pr) = 10 * max_time_step (batch_arg a0)
     \<and> (\<forall>i < 10 * max_time_step (batch_arg a0).
           pareto_rewards pr ! i =
             (if (\<Union>a \<in> set (a0 # as). bin_rewards a (int i)) = {} then NaN
              else Num (Max (\<Union>a \<in> set (a0 # as). bin_rewards a (int i)))))"
proof -
  let ?n = "10 * max_time_step (batch_arg a0)"
  from assms(1) obtain s1 f1 where 1: "log (initialize sp ds, fs0) a0 = Inr (s1, f1)"
    and 2: "run (s1, f1) as = Inr (st, fs)"
    by (auto simp: bind_eq_Inr)
  have "pareto_inv s1 ?n (\<lambda>i. {} \<union> bin_rewards a0 (int i))"
    using assms(2,4) by (intro log_pareto_inv[OF 1]) simp_all
  then have i1: "pareto_inv s1 ?n (\<lambda>i. bin_rewards a0 (int i))" by simp
  have f1: "\<forall>i. finite (bin_rewards a0 (int i))" by (simp add: bin_rewards_def finite_seen_in)
  from run_pareto_inv[OF 2 i1 f1] assms(3,4)
  have "pareto_inv st ?n (\<lambda>i. bin_rewards a0 (int i) \<union> (\<Union>a \<in> set as. bin_rewards a (int i)))"
    by simp
  then show ?thesis by (auto simp: pareto_inv_def best_of_def)
qed

theorem pareto_rewards_running_max_witness:
  "(\<exists>fs. run (initialize None False, Map.empty) ex_run2 = Inr (ex_state2, fs))
   \<and> map_option pareto_rewards (pareto_arrays ex_state2)
       = Some [NaN, Num (1 / 2), Num (3 / 4), NaN, NaN, NaN, NaN, NaN, NaN, NaN]
   \<and> (\<Union>a \<in> set ex_run2. bin_rewards a 0) = {}
   \<and> (\<Union>a \<in> set ex_run2. bin_rewards a 1) \<noteq> {}
   \<and> Max (\<Union>a \<in> set ex_run2. bin_rewards a 1) = 1 / 2
   \<and> Max (\<Union>a \<in> set ex_run2. bin_rewards a 2) = 3 / 4"
proof -
  let ?a0 = "ex_args 0 [Num (1 / 2), Num (1 / 4)]" and ?a1 = "ex_args 1 [Num (1 / 4), Num (3 / 4)]"
  obtain fs where r: "run (initialize None False, Map.empty) (?a0 # [?a1]) = Inr (ex_state2, fs)"
    using ex_run2_Inr by (auto simp: ex_run2_def)
  have e0: "epoch_arg ?a0 = 0" and e1: "\<forall>a \<in> set [?a1]. epoch_arg a \<noteq> 0"
    and n: "\<forall>a \<in> set (?a0 # [?a1]). NaN \<notin> set (rewards a)"
    and m: "10 * max_time_step (batch_arg ?a0) = 10"
    by (simp_all add: ex_args_def ex_batch2_def)
  have p: "map_option pareto_rewards (pareto_arrays ex_state2)
             = Some [NaN, Num (1 / 2), Num (3 / 4), NaN, NaN, NaN, NaN, NaN, NaN, NaN]"
    by (simp add: ex_state2_def)
  have x: "?a0 # [?a1] = ex_run2" by (simp add: ex_run2_def)
  from pareto_rewards_running_max [OF r e0 e1 n]
  obtain pr where pa: "pareto_arrays ex_state2 = Some pr"
    and v: "\<forall>i < 10. pareto_rewards pr ! i =
           (if (\<Union>a \<in> set ex_run2. bin_rewards a (int i)) = {} then NaN
            else Num (Max (\<Union>a \<in> set ex_run2. bin_rewards a (int i))))"
    unfolding m x by blast
  from p pa
  have "pareto_rewards pr = [NaN, Num (1 / 2), Num (3 / 4), NaN, NaN, NaN, NaN, NaN, NaN, NaN]"
    by simp
  with v
  have a: "\<forall>i < 10. [NaN, Num (1 / 2), Num (3 / 4), NaN, NaN, NaN, NaN, NaN, NaN, NaN] ! i =
           (if (\<Union>a \<in> set ex_run2. bin_rewards a (int i)) = {} then NaN
            else Num (Max (\<Union>a \<in> set ex_run2. bin_rewards a (int i))))"
    by simp
  from a[rule_format, of 0] have "(\<Union>a \<in> set ex_run2. bin_rewards a 0) = {}"
    by (simp del: UN_simps SUP_eq_iff UN_iff split: if_splits)
  moreover from a[rule_format, of 1]
  have "(\<Union>a \<in> set ex_run2. bin_rewards a 1) \<noteq> {} \<and> Max (\<Union>a \<in> set ex_run2. bin_rewards a 1) = 1 / 2"
    by (simp del: UN_simps split: if_splits)
  moreover from a[rule_format, of 2] have "Max (\<Union>a \<in> set ex_run2. bin_rewards a 2) = 3 / 4"
    by (simp del: UN_simps split: if_splits)
  ultimately show ?thesis using ex_run2_Inr p by blast
qed

section \<open>The running maximum and the hall of fame\<close>

lemma log_stats_overall:
  "log_stats st a = Inr st' \<Longrightarrow>
     overall_max_R_history st' = overall_max_R_history st \<and> hall_of_fame st' = hall_of_fame st"
  unfolding log_stats_def Let_def bind_eq_Inr
  by clarsimp

lemma pareto_logger_overall:
  "pareto_logger st = Inr st' \<Longrightarrow>
     overall_max_R_history st' = overall_max_R_history st \<and> hall_of_fame st' = hall_of_fame st"
  unfolding pareto_logger_def Let_def
  by (clarsimp simp: bind_eq_Inr split: option.splits)

lemma log_best_overall:
  "log_best st a = Inr st' \<Longrightarrow>
     \<exists>idx best m. np_argmax (rewards a) = Inr idx \<and> get_prog (batch_arg a) idx = Inr best
       \<and> np_max (rewards a) = Inr m
       \<and> update_overall (epoch_arg a) (overall_max_R_history st, hall_of_fame st) m best
           = Inr (overall_max_R_history st', hall_of_fame st')"
  unfolding log_best_def bind_eq_Inr
  by clarsimp

lemma log_overall:
  assumes "log (st, fs) a = Inr (st', fs')"
  shows "\<exists>idx best m. np_argmax (rewards a) = Inr idx \<and> get_prog (batch_arg a) idx = Inr best
       \<and> np_max (rewards a) = Inr m
       \<and> update_overall (epoch_arg a) (overall_max_R_history st, hall_of_fame st) m best
           = Inr (overall_max_R_history st', hall_of_fame st')"
proof -
  from assms obtain s1 s2 where 1: "log_best st a = Inr s1" and 2: "log_stats s1 a = Inr s2"
    and 3: "pareto_logger s2 = Inr st'"
    by (rule log_phases)
  from log_stats_overall[OF 2] pareto_logger_overall[OF 3]
  have "overall_max_R_history st' = overall_max_R_history s1" "hall_of_fame st' = hall_of_fame s1"
    by simp_all
  with log_best_overall[OF 1] show ?thesis by simp
qed

lemma best_of_batch:
  assumes "np_argmax rs = Inr idx" and "NaN \<notin> set rs"
  shows "rs \<noteq> [] \<and> idx < length rs \<and> np_max rs = Inr (Num (Max (num_of ` set rs)))
       \<and> rs ! idx = Num (Max (num_of ` set rs))"
proof -
  from assms(1) have ne: "rs \<noteq> []" by (auto simp: np_argmax_def)
  define vs where "vs = map num_of rs"
  from assms(2) have rs: "rs = map Num vs" unfolding vs_def by (rule nan_free_map)
  from ne have vne: "vs \<noteq> []" by (simp add: vs_def)
  from np_argmax_Num[OF vne] assms(1) have "idx < length vs" "vs ! idx = Max (set vs)"
    unfolding rs[symmetric] by auto
  moreover have "set vs = num_of ` set rs" by (simp add: vs_def)
  moreover note np_max_Num[OF vne]
  ultimately show ?thesis using ne rs by (metis length_map nth_map)
qed

lemma running_max_append: "k < length bs \<Longrightarrow> running_max (bs @ [a]) k = running_max bs k"
  by (simp add: running_max_def)

lemma running_max_last: "bs \<noteq> [] \<Longrightarrow> running_max bs (length bs - 1) = Max (epoch_max ` set bs)"
  by (simp add: running_max_def)

lemma running_max_snoc:
  "running_max (bs @ [a]) (length bs)
     = (if bs = [] then epoch_max a else max (running_max bs (length bs - 1)) (epoch_max a))"
proof (cases "bs = []")
  case True
  then show ?thesis by (simp add: running_max_def)
next
  case False
  then have "Max (insert (epoch_max a) (epoch_max ` set bs))
               = max (epoch_max a) (Max (epoch_max ` set bs))"
    by (intro Max_insert) simp_all
  with False show ?thesis
    by (simp add: running_max_def running_max_last max.commute del: Max_insert)
qed

lemma running_max_le:
  assumes "bs \<noteq> []" and "k < length bs"
  shows "running_max bs k \<le> running_max bs (length bs - 1)"
proof -
  have "epoch_max ` set (take (Suc k) bs) \<subseteq> epoch_max ` set bs"
    by (intro image_mono set_take_subset)
  moreover have "epoch_max ` set (take (Suc k) bs) \<noteq> {}" using assms by auto
  ultimately have "Max (epoch_max ` set (take (Suc k) bs)) \<le> Max (epoch_max ` set bs)"
    by (intro Max_mono) simp_all
  with assms(1) show ?thesis by (simp add: running_max_def)
qed

lemma np_max_history:
  assumes "bs \<noteq> []"
  shows "np_max (map (\<lambda>k. Num (running_max bs k)) [0 ..< length bs])
           = Inr (Num (running_max bs (length bs - 1)))"
proof -
  let ?vs = "map (running_max bs) [0 ..< length bs]"
  have ne: "?vs \<noteq> []" using assms by simp
  have "Max (set ?vs) = running_max bs (length bs - 1)"
  proof (rule Max_eqI)
    show "finite (set ?vs)" by simp
    show "y \<le> running_max bs (length bs - 1)" if "y \<in> set ?vs" for y
      using that running_max_le[OF assms] by auto
    show "running_max bs (length bs - 1) \<in> set ?vs" using assms by auto
  qed
  with np_max_Num[OF ne] show ?thesis by (simp add: comp_def)
qed

lemma history_snoc:
  "map (\<lambda>k. Num (running_max (bs @ [a]) k)) [0 ..< length (bs @ [a])]
     = map (\<lambda>k. Num (running_max bs k)) [0 ..< length bs]
       @ [Num (running_max (bs @ [a]) (length bs))]"
  by (simp add: running_max_append)

lemma overall_step:
  assumes inv: "overall_inv bs s" and l: "log (s, f) a = Inr (st, fs)"
    and e: "epoch_arg a = int (length bs)" and nan: "NaN \<notin> set (rewards a)"
  shows "overall_inv (bs @ [a]) st
       \<and> (bs \<noteq> [] \<longrightarrow>
            hall_of_fame st = hall_of_fame s
            \<or> (\<exists>p m. hall_of_fame st = hall_of_fame s @ [p] \<and> np_max (rewards a) = Inr m
                  \<and> fl_less (last (overall_max_R_history s)) m))"
proof -
  from log_overall[OF l] obtain idx best m where a: "np_argmax (rewards a) = Inr idx"
    and g: "get_prog (batch_arg a) idx = Inr best" and m: "np_max (rewards a) = Inr m"
    and u: "update_overall (epoch_arg a) (overall_max_R_history s, hall_of_fame s) m best
              = Inr (overall_max_R_history st, hall_of_fame st)"
    by blast
  from best_of_batch[OF a nan] m have il: "idx < length (rewards a)"
    and mv: "m = Num (epoch_max a)" and ri: "rewards a ! idx = Num (epoch_max a)"
    by (simp_all add: epoch_max_def)
  from inv have h: "overall_max_R_history s = map (\<lambda>k. Num (running_max bs k)) [0 ..< length bs]"
    by (simp add: overall_inv_def)
  show ?thesis
  proof (cases "bs = []")
    case True
    with e u mv have "overall_max_R_history st = [Num (epoch_max a)]" "hall_of_fame st = [best]"
      by (simp_all add: update_overall_def)
    with True il g ri show ?thesis
      by (auto simp: overall_inv_def running_max_def)
  next
    case False
    let ?M = "running_max bs (length bs - 1)"
    from False e have pos: "0 < epoch_arg a" "epoch_arg a \<noteq> 0" by simp_all
    have pm: "np_max (overall_max_R_history s) = Inr (Num ?M)"
      unfolding h by (rule np_max_history[OF False])
    have lh: "last (overall_max_R_history s) = Num ?M"
      using False by (simp add: h last_map)
    from inv False obtain k j where k: "k < length bs" and j: "j < length (rewards (bs ! k))"
      and gp: "get_prog (batch_arg (bs ! k)) j = Inr (last (hall_of_fame s))"
      and rj: "rewards (bs ! k) ! j = Num ?M" and hne: "hall_of_fame s \<noteq> []"
      by (auto simp: overall_inv_def)
    have sn: "running_max (bs @ [a]) (length bs) = max ?M (epoch_max a)"
      using False by (simp add: running_max_snoc)
    show ?thesis
    proof (cases "?M < epoch_max a")
      case True
      with u pos pm mv
      have r: "overall_max_R_history st = overall_max_R_history s @ [Num (epoch_max a)]"
        "hall_of_fame st = hall_of_fame s @ [best]"
        by (simp_all add: update_overall_def)
      have "overall_max_R_history st
              = map (\<lambda>k. Num (running_max (bs @ [a]) k)) [0 ..< length (bs @ [a])]"
        unfolding history_snoc r h sn using True by simp
      moreover have "length bs < length (bs @ [a])
          \<and> idx < length (rewards ((bs @ [a]) ! length bs))
          \<and> get_prog (batch_arg ((bs @ [a]) ! length bs)) idx = Inr (last (hall_of_fame st))
          \<and> rewards ((bs @ [a]) ! length bs) ! idx
              = Num (running_max (bs @ [a]) (length (bs @ [a]) - 1))"
        using il g ri r sn True by simp
      moreover have "hall_of_fame st \<noteq> []" using r by simp
      ultimately have "overall_inv (bs @ [a]) st"
        unfolding overall_inv_def by blast
      moreover have "fl_less (last (overall_max_R_history s)) m"
        using True lh mv by simp
      ultimately show ?thesis using r m by blast
    next
      case nless: False
      with u pos pm mv lh
      have r: "overall_max_R_history st = overall_max_R_history s @ [Num ?M]"
        "hall_of_fame st = hall_of_fame s"
        by (simp_all add: update_overall_def)
      have "overall_max_R_history st
              = map (\<lambda>k. Num (running_max (bs @ [a]) k)) [0 ..< length (bs @ [a])]"
        unfolding history_snoc r h sn using nless by simp
      moreover have "k < length (bs @ [a])
          \<and> j < length (rewards ((bs @ [a]) ! k))
          \<and> get_prog (batch_arg ((bs @ [a]) ! k)) j = Inr (last (hall_of_fame st))
          \<and> rewards ((bs @ [a]) ! k) ! j = Num (running_max (bs @ [a]) (length (bs @ [a]) - 1))"
        using k j gp rj r sn nless by (simp add: nth_append)
      moreover have "hall_of_fame st \<noteq> []" using r hne by simp
      ultimately have "overall_inv (bs @ [a]) st"
        unfolding overall_inv_def by blast
      then show ?thesis using r by blast
    qed
  qed
qed

lemma epochs_snoc:
  assumes "map epoch_arg (bs @ [a]) = map int [0 ..< length (bs @ [a])]"
  shows "map epoch_arg bs = map int [0 ..< length bs] \<and> epoch_arg a = int (length bs)"
  using assms by simp

lemma run_overall:
  "run (initialize sp ds, fs0) as = Inr (st, fs) \<Longrightarrow>
     map epoch_arg as = map int [0 ..< length as] \<Longrightarrow>
     \<forall>a \<in> set as. NaN \<notin> set (rewards a) \<Longrightarrow> overall_inv as st"
proof (induction as arbitrary: st fs rule: rev_induct)
  case Nil
  then show ?case by (auto simp: overall_inv_def initialize_def)
next
  case (snoc a bs)
  from snoc.prems(1) obtain s f where 1: "run (initialize sp ds, fs0) bs = Inr (s, f)"
    and 2: "log (s, f) a = Inr (st, fs)"
    by (auto simp: run_snoc bind_eq_Inr)
  from epochs_snoc[OF snoc.prems(2)] have e: "map epoch_arg bs = map int [0 ..< length bs]"
    and ea: "epoch_arg a = int (length bs)" by simp_all
  have "overall_inv bs s" using snoc.prems(3) by (intro snoc.IH[OF 1 e]) simp
  from overall_step[OF this 2 ea] snoc.prems(3) show ?case by simp
qed

lemma run_all_logged:
  "run sf as = Inr sf' \<Longrightarrow> a \<in> set as \<Longrightarrow> \<exists>s f s' f'. log (s, f) a = Inr (s', f')"
proof (induction as arbitrary: sf)
  case Nil
  then show ?case by simp
next
  case (Cons b bs)
  from Cons.prems(1) obtain sf1 where 1: "log sf b = Inr sf1" and 2: "run sf1 bs = Inr sf'"
    by (auto simp: bind_eq_Inr)
  show ?case
  proof (cases "a = b")
    case True
    with 1 show ?thesis by (metis surj_pair)
  next
    case False
    with Cons.prems(2) have "a \<in> set bs" by simp
    from Cons.IH[OF 2 this] show ?thesis .
  qed
qed

lemma running_max_mono:
  assumes "i \<le> j" and "as \<noteq> []"
  shows "running_max as i \<le> running_max as j"
proof -
  have "set (take (Suc i) as) \<subseteq> set (take (Suc j) as)"
    using assms(1) by (simp add: set_take_subset_set_take)
  then have "epoch_max ` set (take (Suc i) as) \<subseteq> epoch_max ` set (take (Suc j) as)"
    by (rule image_mono)
  moreover have "epoch_max ` set (take (Suc i) as) \<noteq> {}" using assms(2) by simp
  ultimately show ?thesis unfolding running_max_def by (intro Max_mono) simp_all
qed

lemma history_sorted:
  assumes "as \<noteq> []"
  shows "sorted_wrt fl_le (map (\<lambda>k. Num (running_max as k)) [0 ..< length as])"
proof -
  have "sorted_wrt (<) [0 ..< length as]" by simp
  then have "sorted_wrt (\<lambda>i j. fl_le (Num (running_max as i)) (Num (running_max as j)))
               [0 ..< length as]"
    by (rule sorted_wrt_mono_rel[rotated]) (simp add: running_max_mono[OF _ assms])
  then show ?thesis by (simp add: sorted_wrt_map)
qed

text \<open>
  Claim C1, amended. After the calls of \<open>log\<close> for the epochs \<open>0, 1, ..., t\<close>, all
  returning and with no NaN among the rewards: \<open>rewards.max()\<close> of every call is the
  greatest reward of its batch; \<open>overall_max_R_history\<close> has \<open>t + 1\<close> entries; entry
  \<open>k\<close> is the greatest of the epoch maxima of the epochs \<open>0, ..., k\<close>, so the list is
  nondecreasing; \<open>best_prog\<close> returns a program of the hall of fame that was logged
  with a reward equal to entry \<open>t\<close>; and the last call left the hall of fame as it
  was, or appended one program, its epoch maximum being greater than the previous
  running maximum.
\<close>

theorem overall_max_running:
  assumes r: "run (initialize sp ds, fs0) as = Inr (st, fs)" and ne: "as \<noteq> []"
    and ep: "map epoch_arg as = map int [0 ..< length as]"
    and nan: "\<forall>a \<in> set as. NaN \<notin> set (rewards a)"
  shows "(\<forall>a \<in> set as. np_max (rewards a) = Inr (Num (epoch_max a)))
      \<and> length (overall_max_R_history st) = length as
      \<and> (\<forall>k < length as.
            overall_max_R_history st ! k = Num (Max (epoch_max ` set (take (Suc k) as))))
      \<and> sorted_wrt fl_le (overall_max_R_history st)
      \<and> (\<exists>p k j. best_prog st = Inr p \<and> p \<in> set (hall_of_fame st)
            \<and> k < length as \<and> j < length (rewards (as ! k))
            \<and> get_prog (batch_arg (as ! k)) j = Inr p
            \<and> rewards (as ! k) ! j = overall_max_R_history st ! (length as - 1))
      \<and> (\<forall>bs a s' f'.
            as = bs @ [a] \<and> bs \<noteq> [] \<and> run (initialize sp ds, fs0) bs = Inr (s', f')
            \<longrightarrow> hall_of_fame st = hall_of_fame s'
                \<or> (\<exists>p m. hall_of_fame st = hall_of_fame s' @ [p]
                      \<and> np_max (rewards a) = Inr m
                      \<and> fl_less (last (overall_max_R_history s')) m))"
proof -
  from run_overall[OF r ep nan] have inv: "overall_inv as st" .
  then have h: "overall_max_R_history st = map (\<lambda>k. Num (running_max as k)) [0 ..< length as]"
    by (simp add: overall_inv_def)
  have c1: "\<forall>a \<in> set as. np_max (rewards a) = Inr (Num (epoch_max a))"
  proof
    fix a assume a: "a \<in> set as"
    from run_all_logged[OF r a] obtain s f s' f' where "log (s, f) a = Inr (s', f')" by blast
    from log_overall[OF this] obtain idx where "np_argmax (rewards a) = Inr idx" by blast
    from best_of_batch[OF this] nan a show "np_max (rewards a) = Inr (Num (epoch_max a))"
      by (simp add: epoch_max_def)
  qed
  have c2: "length (overall_max_R_history st) = length as" by (simp add: h)
  have c3: "\<forall>k < length as.
              overall_max_R_history st ! k = Num (Max (epoch_max ` set (take (Suc k) as)))"
    by (simp add: h running_max_def)
  have c4: "sorted_wrt fl_le (overall_max_R_history st)"
    unfolding h by (rule history_sorted[OF ne])
  from inv ne obtain k j where hne: "hall_of_fame st \<noteq> []" and k: "k < length as"
    and j: "j < length (rewards (as ! k))"
    and g: "get_prog (batch_arg (as ! k)) j = Inr (last (hall_of_fame st))"
    and v: "rewards (as ! k) ! j = Num (running_max as (length as - 1))"
    by (auto simp: overall_inv_def)
  have "overall_max_R_history st ! (length as - 1) = Num (running_max as (length as - 1))"
    using ne by (simp add: h)
  with hne k j g v
  have c5: "\<exists>p k j. best_prog st = Inr p \<and> p \<in> set (hall_of_fame st)
            \<and> k < length as \<and> j < length (rewards (as ! k))
            \<and> get_prog (batch_arg (as ! k)) j = Inr p
            \<and> rewards (as ! k) ! j = overall_max_R_history st ! (length as - 1)"
    by (intro exI[of _ "last (hall_of_fame st)"] exI[of _ k] exI[of _ j])
      (simp add: best_prog_def)
  have c6: "hall_of_fame st = hall_of_fame s'
              \<or> (\<exists>p m. hall_of_fame st = hall_of_fame s' @ [p] \<and> np_max (rewards a) = Inr m
                    \<and> fl_less (last (overall_max_R_history s')) m)"
    if "as = bs @ [a]" "bs \<noteq> []" "run (initialize sp ds, fs0) bs = Inr (s', f')" for bs a s' f'
  proof -
    from r that(1,3) have l: "log (s', f') a = Inr (st, fs)"
      by (simp add: run_snoc)
    from ep that(1) have e: "map epoch_arg bs = map int [0 ..< length bs]"
      and ea: "epoch_arg a = int (length bs)" by simp_all
    have "overall_inv bs s'" using nan that(1) by (intro run_overall[OF that(3) e]) simp
    from overall_step[OF this l ea] nan that(1,2) show ?thesis by simp
  qed
  from c1 c2 c3 c4 c5 c6 show ?thesis by blast
qed

lemma ex_run3_result:
  "map_sum id (\<lambda>sf. (overall_max_R_history (fst sf), hall_of_fame (fst sf), best_prog (fst sf)))
     (run (initialize None False, Map.empty) ex_run3)
   = Inr ([Num (1 / 2), Num (3 / 4), Num (3 / 4)], [Prog ''x'', Prog ''x+1''], Inr (Prog ''x+1''))"
  by code_simp

theorem overall_max_running_witness:
  "\<exists>st fs. run (initialize None False, Map.empty) ex_run3 = Inr (st, fs)
     \<and> overall_max_R_history st = [Num (1 / 2), Num (3 / 4), Num (3 / 4)]
     \<and> hall_of_fame st = [Prog ''x'', Prog ''x+1'']
     \<and> best_prog st = Inr (Prog ''x+1'')
     \<and> Max (epoch_max ` set (take 2 ex_run3)) = 3 / 4
     \<and> Max (epoch_max ` set (take 3 ex_run3)) = 3 / 4
     \<and> (\<forall>a \<in> set ex_run3. np_max (rewards a) = Inr (Num (epoch_max a)))"
proof -
  from ex_run3_result obtain st fs
    where r: "run (initialize None False, Map.empty) ex_run3 = Inr (st, fs)"
      and h: "overall_max_R_history st = [Num (1 / 2), Num (3 / 4), Num (3 / 4)]"
      and f: "hall_of_fame st = [Prog ''x'', Prog ''x+1'']"
      and b: "best_prog st = Inr (Prog ''x+1'')"
    by (cases "run (initialize None False, Map.empty) ex_run3") auto
  have ne: "ex_run3 \<noteq> []" and n: "length ex_run3 = 3"
    and nan: "\<forall>a \<in> set ex_run3. NaN \<notin> set (rewards a)"
    by (simp_all add: ex_run3_def ex_run2_def ex_args_def)
  have ep: "map epoch_arg ex_run3 = map int [0 ..< length ex_run3]"
    by code_simp
  from overall_max_running [OF r ne ep nan]
  have a: "\<forall>a \<in> set ex_run3. np_max (rewards a) = Inr (Num (epoch_max a))"
    and v: "\<forall>k < 3. overall_max_R_history st ! k = Num (Max (epoch_max ` set (take (Suc k) ex_run3)))"
    unfolding n by blast+
  from v[rule_format, of 1] v[rule_format, of 2] h
  have "Max (epoch_max ` set (take 2 ex_run3)) = 3 / 4"
    and "Max (epoch_max ` set (take 3 ex_run3)) = 3 / 4"
    by (simp_all add: numeral_2_eq_2 numeral_3_eq_3)
  with r h f b a show ?thesis by blast
qed

text \<open>
  Claim C1 as stated fails on rewards that hold a NaN. Both calls of \<open>ex_run_nan\<close>, for
  the epochs 0 and 1, return. The second one logs a program with reward 9/10, but its
  \<open>rewards.max()\<close> is NaN and the comparison of line 63 is false: the history repeats
  1/2, the hall of fame is not extended, and \<open>best_prog\<close> is the program of epoch 0,
  whose reward is 1/2.
\<close>

theorem overall_max_nan_counterexample:
  "map_sum id (\<lambda>sf. (overall_max_R_history (fst sf), hall_of_fame (fst sf), best_prog (fst sf)))
       (run (initialize None False, Map.empty) ex_run_nan)
     = Inr ([Num (1 / 2), Num (1 / 2)], [Prog ''x''], Inr (Prog ''x''))
   \<and> map epoch_arg ex_run_nan = [0, 1]
   \<and> map (\<lambda>a. np_max (rewards a)) ex_run_nan = [Inr (Num (1 / 2)), Inr NaN]
   \<and> rewards (ex_run_nan ! 1) ! 1 = Num (9 / 10)
   \<and> get_prog (batch_arg (ex_run_nan ! 1)) 1 = Inr (Prog ''x+1'')
   \<and> fl_less (Num (1 / 2)) (Num (9 / 10))"
proof -
  have "map_sum id
          (\<lambda>sf. (overall_max_R_history (fst sf), hall_of_fame (fst sf), best_prog (fst sf)))
          (run (initialize None False, Map.empty) ex_run_nan)
        = Inr ([Num (1 / 2), Num (1 / 2)], [Prog ''x''], Inr (Prog ''x''))"
    by code_simp
  moreover have "map epoch_arg ex_run_nan = [0, 1]"
    and "map (\<lambda>a. np_max (rewards a)) ex_run_nan = [Inr (Num (1 / 2)), Inr NaN]"
    and "rewards (ex_run_nan ! 1) ! 1 = Num (9 / 10)"
    and "get_prog (batch_arg (ex_run_nan ! 1)) 1 = Inr (Prog ''x+1'')"
    and "fl_less (Num (1 / 2)) (Num (9 / 10))"
    by (simp_all add: ex_run_nan_def ex_args_def ex_batch2_def np_max_def get_prog_def
        get_item_def)
  ultimately show ?thesis by blast
qed

text \<open>
  A second call with epoch 0 creates the Pareto arrays anew (line 128): after the two
  calls of \<open>ex_run_reset\<close> bin 1 holds the reward 1/4 of the second call, although
  the first call logged a program of rounded complexity 1 with reward 1/2.
\<close>

theorem pareto_rewards_reset_counterexample:
  "map_sum id (\<lambda>sf. map_option pareto_rewards (pareto_arrays (fst sf)))
     (run (initialize None False, Map.empty) ex_run_reset)
     = Inr (Some [NaN, Num (1 / 4), Num (1 / 8), NaN, NaN, NaN, NaN, NaN, NaN, NaN])
   \<and> map epoch_arg ex_run_reset = [0, 0]
   \<and> 1 / 2 \<in> (\<Union>a \<in> set ex_run_reset. bin_rewards a 1)
   \<and> Num (Max (\<Union>a \<in> set ex_run_reset. bin_rewards a 1)) \<noteq> Num (1 / 4)"
proof -
  have r: "map_sum id (\<lambda>sf. map_option pareto_rewards (pareto_arrays (fst sf)))
     (run (initialize None False, Map.empty) ex_run_reset)
     = Inr (Some [NaN, Num (1 / 4), Num (1 / 8), NaN, NaN, NaN, NaN, NaN, NaN, NaN])"
    by code_simp
  have e: "map epoch_arg ex_run_reset = [0, 0]"
    by (simp add: ex_run_reset_def ex_args_def)
  have "rounds_to (Num 1) 1" by (simp add: np_round_def)
  then have "1 / 2 \<in> bin_rewards (ex_args 0 [Num (1 / 2), Num (1 / 4)]) 1"
    unfolding bin_rewards_def seen_in_def
    by (auto simp: ex_args_def ex_batch2_def intro!: exI[of _ 0])
  then have m: "1 / 2 \<in> (\<Union>a \<in> set ex_run_reset. bin_rewards a 1)"
    by (simp add: ex_run_reset_def)
  have "finite (\<Union>a \<in> set ex_run_reset. bin_rewards a 1)"
    by (simp add: bin_rewards_def finite_seen_in)
  from Max_ge[OF this m] have "Num (Max (\<Union>a \<in> set ex_run_reset. bin_rewards a 1)) \<noteq> Num (1 / 4)"
    by simp
  with r e m show ?thesis by blast
qed

section \<open>When \<open>get_pareto_front\<close> fails\<close>

lemma candidates_empty:
  assumes "length (pareto_rewards pr) = length (pareto_complexities pr)"
    and "length (pareto_programs pr) = length (pareto_complexities pr)"
  shows "candidates pr = [] \<longleftrightarrow> (\<forall>r \<in> set (pareto_rewards pr). \<not> pareto_valid r)"
proof -
  let ?z = "zip (pareto_complexities pr) (zip (pareto_programs pr) (pareto_rewards pr))"
  have "map cand_r ?z = pareto_rewards pr"
    using unzip_candidates[of "pareto_complexities pr" "pareto_programs pr" "pareto_rewards pr"]
      assms by simp
  then have "set (pareto_rewards pr) = cand_r ` set ?z" by (metis set_map)
  then show ?thesis by (auto simp: candidates_def filter_empty_conv)
qed

lemma get_pareto_front_fails:
  assumes r: "run (initialize sp ds, fs0) as = Inr (st, fs)" and ne: "as \<noteq> []"
  shows "\<exists>pr. pareto_arrays st = Some pr
      \<and> (get_pareto_front st = Inl IndexError \<longleftrightarrow> (\<forall>r \<in> set (pareto_rewards pr). \<not> pareto_valid r))
      \<and> (returns (get_pareto_front st) \<longleftrightarrow> (\<exists>r \<in> set (pareto_rewards pr). pareto_valid r))"
proof -
  from run_wf[OF r initialize_wf] ne obtain pr where pa: "pareto_arrays st = Some pr"
    and wf: "pareto_wf st" by auto
  then obtain b where b: "batch st = Some b"
    and lr: "length (pareto_rewards pr) = length (pareto_complexities pr)"
    and lp: "length (pareto_programs pr) = length (pareto_complexities pr)"
    by (auto simp: pareto_wf_def)
  note eq = get_pareto_front_eq[OF pa lr lp b]
  note ce = candidates_empty[OF lr lp]
  show ?thesis
  proof (cases "candidates pr")
    case Nil
    with eq ce pa show ?thesis by (simp add: returns_def)
  next
    case (Cons x xs)
    with eq ce pa show ?thesis by (auto simp: returns_def Let_def)
  qed
qed

lemma run_from_zero_inv:
  assumes "run (initialize sp ds, fs0) (a0 # as) = Inr (st, fs)"
    and "epoch_arg a0 = 0" and "\<forall>a \<in> set as. epoch_arg a \<noteq> 0"
    and "\<forall>a \<in> set (a0 # as). NaN \<notin> set (rewards a)"
  shows "pareto_inv st (10 * max_time_step (batch_arg a0))
           (\<lambda>i. \<Union>a \<in> set (a0 # as). bin_rewards a (int i))"
proof -
  let ?n = "10 * max_time_step (batch_arg a0)"
  from assms(1) obtain s1 f1 where 1: "log (initialize sp ds, fs0) a0 = Inr (s1, f1)"
    and 2: "run (s1, f1) as = Inr (st, fs)"
    by (auto simp: bind_eq_Inr)
  have "pareto_inv s1 ?n (\<lambda>i. {} \<union> bin_rewards a0 (int i))"
    using assms(2,4) by (intro log_pareto_inv[OF 1]) simp_all
  then have i1: "pareto_inv s1 ?n (\<lambda>i. bin_rewards a0 (int i))" by simp
  have f1: "\<forall>i. finite (bin_rewards a0 (int i))" by (simp add: bin_rewards_def finite_seen_in)
  from run_pareto_inv[OF 2 i1 f1] assms(3,4) show ?thesis by simp
qed

lemma get_pareto_front_succeeds:
  assumes r: "run (initialize sp ds, fs0) (a0 # as) = Inr (st, fs)"
    and e0: "epoch_arg a0 = 0" and e: "\<forall>a \<in> set as. epoch_arg a \<noteq> 0"
    and nan: "\<forall>a \<in> set (a0 # as). NaN \<notin> set (rewards a)"
    and a: "a \<in> set (a0 # as)" and j: "j < length (n_complexity (batch_arg a))"
    and jr: "j < length (rewards a)" and i: "i < 10 * max_time_step (batch_arg a0)"
    and c: "rounds_to (n_complexity (batch_arg a) ! j) (int i)"
    and pos: "fl_less (Num 0) (rewards a ! j)"
  shows "returns (get_pareto_front st)"
proof -
  let ?U = "\<Union>a \<in> set (a0 # as). bin_rewards a (int i)"
  from pos obtain x where x: "rewards a ! j = Num x" and xp: "0 < x"
    by (cases "rewards a ! j") auto
  from j jr c x have "x \<in> bin_rewards a (int i)"
    by (auto simp: bin_rewards_def seen_in_def)
  with a have xu: "x \<in> ?U" by blast
  have fin: "finite ?U" by (simp add: bin_rewards_def finite_seen_in)
  from Max_ge[OF fin xu] xp have mp: "0 < Max ?U" by simp
  from run_from_zero_inv[OF r e0 e nan] obtain pr where pa: "pareto_arrays st = Some pr"
    and l: "length (pareto_rewards pr) = 10 * max_time_step (batch_arg a0)"
    and v: "pareto_rewards pr ! i = best_of ?U"
    using i by (auto simp: pareto_inv_def)
  from v xu mp have "pareto_valid (pareto_rewards pr ! i)"
    by (auto simp: best_of_def pareto_valid_def isnan_def)
  moreover have "pareto_rewards pr ! i \<in> set (pareto_rewards pr)" using i l by simp
  ultimately have "\<exists>r \<in> set (pareto_rewards pr). pareto_valid r" by blast
  with get_pareto_front_fails[OF r] pa show ?thesis by simp
qed

text \<open>
  Claim C8, amended. Before the first call of \<open>log\<close>, \<open>get_pareto_front\<close> raises
  AttributeError. On a logger reached by at least one call, it raises IndexError
  exactly when no bin holds a reward that is not NaN and greater than 0, and returns
  exactly when some bin does. After a run that starts with epoch 0, has no further
  epoch 0 and logs no NaN reward, it returns as soon as one logged program has a
  reward greater than 0 and a rounded complexity on the grid
  \<open>0, ..., 10 * max_time_step - 1\<close>.
\<close>

theorem get_pareto_front_failure:
  "get_pareto_front (initialize sp ds) = Inl AttributeError
   \<and> (run (initialize sp ds, fs0) bs = Inr (st, fs) \<and> bs \<noteq> []
        \<longrightarrow> (\<exists>pr. pareto_arrays st = Some pr
              \<and> (get_pareto_front st = Inl IndexError
                    \<longleftrightarrow> (\<forall>r \<in> set (pareto_rewards pr). \<not> pareto_valid r))
              \<and> (returns (get_pareto_front st)
                    \<longleftrightarrow> (\<exists>r \<in> set (pareto_rewards pr). pareto_valid r))))
   \<and> (run (initialize sp ds, fs0) (a0 # as) = Inr (st', fs')
        \<and> epoch_arg a0 = 0 \<and> (\<forall>a \<in> set as. epoch_arg a \<noteq> 0)
        \<and> (\<forall>a \<in> set (a0 # as). NaN \<notin> set (rewards a))
        \<and> a \<in> set (a0 # as) \<and> j < length (n_complexity (batch_arg a))
        \<and> j < length (rewards a) \<and> i < 10 * max_time_step (batch_arg a0)
        \<and> rounds_to (n_complexity (batch_arg a) ! j) (int i)
        \<and> fl_less (Num 0) (rewards a ! j)
        \<longrightarrow> returns (get_pareto_front st'))"
proof (intro conjI impI)
  show "get_pareto_front (initialize sp ds) = Inl AttributeError"
    by (simp add: get_pareto_front_def initialize_def)
next
  assume "run (initialize sp ds, fs0) bs = Inr (st, fs) \<and> bs \<noteq> []"
  then show "\<exists>pr. pareto_arrays st = Some pr
              \<and> (get_pareto_front st = Inl IndexError
                    \<longleftrightarrow> (\<forall>r \<in> set (pareto_rewards pr). \<not> pareto_valid r))
              \<and> (returns (get_pareto_front st)
                    \<longleftrightarrow> (\<exists>r \<in> set (pareto_rewards pr). pareto_valid r))"
    using get_pareto_front_fails by blast
next
  assume "run (initialize sp ds, fs0) (a0 # as) = Inr (st', fs')
        \<and> epoch_arg a0 = 0 \<and> (\<forall>a \<in> set as. epoch_arg a \<noteq> 0)
        \<and> (\<forall>a \<in> set (a0 # as). NaN \<notin> set (rewards a))
        \<and> a \<in> set (a0 # as) \<and> j < length (n_complexity (batch_arg a))
        \<and> j < length (rewards a) \<and> i < 10 * max_time_step (batch_arg a0)
        \<and> rounds_to (n_complexity (batch_arg a) ! j) (int i)
        \<and> fl_less (Num 0) (rewards a ! j)"
  then show "returns (get_pareto_front st')"
    using get_pareto_front_succeeds by blast
qed

theorem get_pareto_front_failure_witness:
  "get_pareto_front (initialize None False) = Inl AttributeError
   \<and> (\<exists>fs. run (initialize None False, Map.empty) ex_run2 = Inr (ex_state2, fs))
   \<and> returns (get_pareto_front ex_state2)
   \<and> (\<exists>pr. pareto_arrays ex_state2 = Some pr \<and> (\<exists>r \<in> set (pareto_rewards pr). pareto_valid r))"
proof -
  let ?a0 = "ex_args 0 [Num (1 / 2), Num (1 / 4)]" and ?a1 = "ex_args 1 [Num (1 / 4), Num (3 / 4)]"
  obtain fs where r: "run (initialize None False, Map.empty) ex_run2 = Inr (ex_state2, fs)"
    using ex_run2_Inr by blast
  then have r': "run (initialize None False, Map.empty) (?a0 # [?a1]) = Inr (ex_state2, fs)"
    by (simp add: ex_run2_def)
  have ne: "ex_run2 \<noteq> []" by (simp add: ex_run2_def)
  have h: "epoch_arg ?a0 = 0" "\<forall>a \<in> set [?a1]. epoch_arg a \<noteq> 0"
    "\<forall>a \<in> set (?a0 # [?a1]). NaN \<notin> set (rewards a)" "?a0 \<in> set (?a0 # [?a1])"
    "0 < length (n_complexity (batch_arg ?a0))" "0 < length (rewards ?a0)"
    "1 < 10 * max_time_step (batch_arg ?a0)"
    "rounds_to (n_complexity (batch_arg ?a0) ! 0) (int 1)"
    "fl_less (Num 0) (rewards ?a0 ! 0)"
    by (simp_all add: ex_args_def ex_batch2_def np_round_def)
  note t = get_pareto_front_failure [where sp = None and ds = False and ?fs0.0 = Map.empty
      and bs = ex_run2 and st = ex_state2 and fs = fs and ?a0.0 = ?a0 and as = "[?a1]"
      and st' = ex_state2 and fs' = fs and a = ?a0 and j = 0 and i = 1]
  from t have 1: "get_pareto_front (initialize None False) = Inl AttributeError" by blast
  from t r' h have 2: "returns (get_pareto_front ex_state2)" by blast
  from t r ne 2
  have 3: "\<exists>pr. pareto_arrays ex_state2 = Some pr \<and> (\<exists>r \<in> set (pareto_rewards pr). pareto_valid r)"
    by blast
  from 1 2 3 r show ?thesis by blast
qed

text \<open>
  A program with reward 1/2 has been logged, but its complexity rounds to 12 and the
  grid ends at 9: no bin records it and \<open>get_pareto_front\<close> raises IndexError. Before
  the first call of \<open>log\<close> the exception is AttributeError: the arrays do not exist.
\<close>

theorem get_pareto_front_counterexample:
  "map_sum id (\<lambda>sf. get_pareto_front (fst sf))
      (run (initialize None False, Map.empty) ex_run_far) = Inr (Inl IndexError)
   \<and> map rewards ex_run_far = [[Num (1 / 2)]]
   \<and> fl_less (Num 0) (Num (1 / 2))
   \<and> get_pareto_front (initialize None False) = Inl AttributeError"
proof -
  have "map_sum id (\<lambda>sf. get_pareto_front (fst sf))
      (run (initialize None False, Map.empty) ex_run_far) = Inr (Inl IndexError)"
    by code_simp
  moreover have "get_pareto_front (initialize None False) = Inl AttributeError"
    by (simp add: get_pareto_front_def initialize_def)
  ultimately show ?thesis by (simp add: ex_run_far_def)
qed

section \<open>The cost of the scans\<close>

subsection \<open>The counted functions compute what the embedded functions compute\<close>

lemma fst_reads [simp]: "fst (reads n m) = m"
  by (simp add: reads_def)

lemma snd_reads [simp]: "snd (reads n m) = n"
  by (simp add: reads_def)

lemma fst_bind_T: "fst (bind_T m f) = bind (fst m) (\<lambda>a. fst (f a))"
  by (cases "fst m") (simp_all add: bind_T_def)

lemma snd_bind_T:
  "snd (bind_T m f) = (case fst m of Inl e \<Rightarrow> snd m | Inr a \<Rightarrow> snd m + snd (f a))"
  by (cases "fst m") (simp_all add: bind_T_def)

lemma snd_bind_T_reads_Inr [simp]: "snd (bind_T (reads n (Inr x)) f) = n + snd (f x)"
  by (simp add: snd_bind_T)

lemma update_overall_T_fst: "fst (update_overall_T e hg n m best) = update_overall e hg m best"
  by (simp add: update_overall_T_def update_overall_def fst_bind_T Let_def if_distrib [of fst]
      cong: if_cong)

lemma log_best_T_fst: "fst (log_best_T st a) = log_best st a"
  by (simp add: log_best_T_def log_best_def fst_bind_T update_overall_T_fst)

lemma pareto_bin_T_fst: "fst (pareto_bin_T b cr c r p) = pareto_bin b cr c r p"
  by (simp add: pareto_bin_T_def pareto_bin_def fst_bind_T Let_def if_distrib [of fst]
      cong: if_cong)

lemma pareto_loop_T_fst: "fst (pareto_loop_T b cr cs rs ps) = pareto_loop b cr cs rs ps"
  by (induction b cr cs rs ps rule: pareto_loop.induct)
    (simp_all add: fst_bind_T pareto_bin_T_fst split_def)

lemma pareto_logger_T_fst: "fst (pareto_logger_T st) = pareto_logger st"
  by (simp add: pareto_logger_T_def pareto_logger_def fst_bind_T pareto_loop_T_fst Let_def
      split_def split: option.splits)

lemma front_loop_T_fst: "fst (front_loop_T rs pv cv i acc) = front_loop rs pv cv i acc"
  by (induction rs pv cv i acc rule: front_loop.induct) (simp_all add: fst_bind_T)

lemma get_pareto_front_T_fst: "fst (get_pareto_front_T d st) = get_pareto_front st"
proof (cases "pareto_arrays st")
  case None
  then show ?thesis by (simp add: get_pareto_front_T_def get_pareto_front_def)
next
  case (Some pr)
  then show ?thesis
    by (cases "batch st")
      (simp_all add: get_pareto_front_T_def get_pareto_front_def fst_bind_T front_loop_T_fst
        Let_def split_def)
qed

subsection \<open>Bounds on the reads\<close>

lemma snd_bind_T_le:
  "snd (bind_T m f) \<le> snd m + (case fst m of Inl e \<Rightarrow> 0 | Inr a \<Rightarrow> snd (f a))"
  by (cases "fst m") (simp_all add: bind_T_def)

lemma snd_bind_T_Inr: "fst m = Inr a \<Longrightarrow> snd (bind_T m f) = snd m + snd (f a)"
  by (simp add: bind_T_def)

lemma snd_bind_T_ge: "snd m \<le> snd (bind_T m f)"
  by (cases "fst m") (simp_all add: bind_T_def)

lemma length_arg_have: "length (arg_have cs c) \<le> length cs"
  unfolding arg_have_def using length_filter_le[of _ "[0 ..< length cs]"] by simp

lemma update_overall_T_upper:
  "snd (update_overall_T e hg n m best) \<le> 2 * n + length (fst hg) + 1"
  by (auto simp: update_overall_T_def Let_def snd_bind_T split: sum.splits)

lemma update_overall_T_lower:
  "0 < e \<Longrightarrow> n + length (fst hg) \<le> snd (update_overall_T e hg n m best)"
  by (auto simp: update_overall_T_def Let_def snd_bind_T split: sum.splits)

lemma log_best_T_upper:
  "snd (log_best_T st a) \<le> 3 * length (rewards a) + length (overall_max_R_history st) + 2"
proof -
  have "snd (log_best_T st a) \<le> length (rewards a) + 1
          + (case (np_argmax (rewards a), np_max (rewards a)) of
               (Inr idx, Inr m) \<Rightarrow>
                 (case get_prog (batch_arg a) idx of Inl e \<Rightarrow> 0
                  | Inr best \<Rightarrow>
                      snd (update_overall_T (epoch_arg a)
                             (overall_max_R_history st, hall_of_fame st)
                             (length (rewards a)) m best))
             | _ \<Rightarrow> 0)"
    by (simp add: log_best_T_def snd_bind_T split: sum.splits)
  also have "\<dots> \<le> length (rewards a) + 1
                  + (2 * length (rewards a) + length (overall_max_R_history st) + 1)"
    using update_overall_T_upper[of "epoch_arg a" "(overall_max_R_history st, hall_of_fame st)"
        "length (rewards a)"]
    by (simp split: sum.splits)
  finally show ?thesis by simp
qed

lemma log_best_T_lower:
  assumes "returns (log_best st a)" and "0 < epoch_arg a"
  shows "2 * length (rewards a) + length (overall_max_R_history st) \<le> snd (log_best_T st a)"
proof -
  from assms(1) obtain idx best m hg where i: "np_argmax (rewards a) = Inr idx"
    and p: "get_prog (batch_arg a) idx = Inr best" and m: "np_max (rewards a) = Inr m"
    and u: "update_overall (epoch_arg a) (overall_max_R_history st, hall_of_fame st) m best
              = Inr hg"
    by (auto simp: returns_iff log_best_def bind_eq_Inr)
  have "snd (log_best_T st a)
          = length (rewards a) + 1
            + snd (update_overall_T (epoch_arg a) (overall_max_R_history st, hall_of_fame st)
                     (length (rewards a)) m best)"
    using i p m u by (simp add: log_best_T_def snd_bind_T update_overall_T_fst)
  with update_overall_T_lower[OF assms(2),
      of "length (rewards a)" "(overall_max_R_history st, hall_of_fame st)" m best]
  show ?thesis by simp
qed

lemma pareto_bin_T_lower: "length (n_complexity b) \<le> snd (pareto_bin_T b cr c r p)"
  by (simp add: pareto_bin_T_def)

lemma pareto_bin_T_upper:
  "snd (pareto_bin_T b cr c r p) \<le> 3 * length (n_complexity b) + 6"
  using length_arg_have[of "n_complexity b" c]
  by (auto simp: pareto_bin_T_def snd_bind_T take_idx_Inr split: sum.splits)

lemma pareto_loop_T_upper:
  "snd (pareto_loop_T b cr cs rs ps) \<le> length cs * (3 * length (n_complexity b) + 6)"
proof (induction b cr cs rs ps rule: pareto_loop_T.induct)
  case (2 b cr c cs r rs p ps)
  have "snd (pareto_loop_T b cr (c # cs) (r # rs) (p # ps))
          \<le> snd (pareto_bin_T b cr c r p) + snd (pareto_loop_T b cr cs rs ps)"
    by (auto simp: snd_bind_T split: sum.splits prod.splits)
  with "2.IH" pareto_bin_T_upper[of b cr c r p] show ?case by simp
qed simp_all

lemma pareto_loop_T_lower:
  "returns (pareto_loop b cr cs rs ps) \<Longrightarrow>
     length cs * length (n_complexity b) \<le> snd (pareto_loop_T b cr cs rs ps)"
proof (induction b cr cs rs ps rule: pareto_loop_T.induct)
  case (2 b cr c cs r rs p ps)
  from "2.prems" obtain r' p' rs' ps' where
    bin: "pareto_bin b cr c r p = Inr (r', p')"
    and rest: "pareto_loop b cr cs rs ps = Inr (rs', ps')"
    by (auto simp: returns_iff bind_eq_Inr)
  from rest "2.IH" have "length cs * length (n_complexity b) \<le> snd (pareto_loop_T b cr cs rs ps)"
    by (simp add: returns_iff)
  moreover have "snd (pareto_loop_T b cr (c # cs) (r # rs) (p # ps))
          = snd (pareto_bin_T b cr c r p) + snd (pareto_loop_T b cr cs rs ps)"
    using bin rest
    by (simp add: snd_bind_T pareto_bin_T_fst pareto_loop_T_fst)
  ultimately show ?case using pareto_bin_T_lower[of b cr c r p] by simp
qed (simp_all add: returns_def)

lemma pareto_logger_T_bounds:
  assumes b: "batch st = Some b" and l: "pareto_logger st = Inr st'"
    and pa: "pareto_arrays st' = Some pr'"
  shows "length (pareto_complexities pr') * length (n_complexity b) \<le> snd (pareto_logger_T st)
       \<and> snd (pareto_logger_T st)
           \<le> length (pareto_complexities pr') * (3 * length (n_complexity b) + 6)"
proof -
  define pa0 where "pa0 = (if epoch st = Some 0
                then Some \<lparr> pareto_complexities = map int [0 ..< 10 * max_time_step b],
                            pareto_rewards = replicate (10 * max_time_step b) NaN,
                            pareto_programs = replicate (10 * max_time_step b) None \<rparr>
                else pareto_arrays st)"
  from l b obtain pr rs ps where pr: "pa0 = Some pr"
    and loop: "pareto_loop b (R st) (pareto_complexities pr) (pareto_rewards pr)
                 (pareto_programs pr) = Inr (rs, ps)"
    and st': "st' = st\<lparr> pareto_arrays :=
                        Some (pr\<lparr> pareto_rewards := rs, pareto_programs := ps \<rparr>) \<rparr>"
    unfolding pareto_logger_def pa0_def Let_def
    by (auto simp: bind_eq_Inr split: option.splits)
  from st' pa have c: "pareto_complexities pr' = pareto_complexities pr" by auto
  have "snd (pareto_logger_T st)
          = snd (pareto_loop_T b (R st) (pareto_complexities pr) (pareto_rewards pr)
                   (pareto_programs pr))"
    using b pr loop unfolding pareto_logger_T_def pa0_def Let_def
    by (simp add: snd_bind_T pareto_loop_T_fst)
  moreover from loop have "returns (pareto_loop b (R st) (pareto_complexities pr)
                 (pareto_rewards pr) (pareto_programs pr))"
    by (simp add: returns_iff)
  ultimately show ?thesis
    using pareto_loop_T_lower[of b "R st" "pareto_complexities pr" "pareto_rewards pr"
        "pareto_programs pr"]
      pareto_loop_T_upper[of b "R st" "pareto_complexities pr" "pareto_rewards pr"
        "pareto_programs pr"]
    by (simp add: c)
qed

lemma front_loop_T_upper: "snd (front_loop_T rs pv cv i acc) \<le> 3 * length rs"
proof (induction rs pv cv i acc rule: front_loop_T.induct)
  case (2 r rs pv cv i fr fp fc)
  show ?case
  proof (cases "fl_less (last fr) r")
    case False
    with "2.IH"(2)[of False] show ?thesis by simp
  next
    case True
    show ?thesis
    proof (cases "get_item pv i")
      case (Inl e)
      with True show ?thesis by (simp add: snd_bind_T)
    next
      case p: (Inr p)
      show ?thesis
      proof (cases "get_item cv i")
        case (Inl e)
        with True p show ?thesis by (simp add: snd_bind_T)
      next
        case (Inr c)
        with True p "2.IH"(1)[of True p c] show ?thesis by (simp add: snd_bind_T)
      qed
    qed
  qed
qed simp

lemma front_loop_length:
  "front_loop rs pv cv i (fr, fp, fc) = Inr (fr', fp', fc') \<Longrightarrow>
     length fr' \<le> length fr + length rs \<and> length fp' \<le> length fp + length rs
     \<and> length fc' \<le> length fc + length rs"
proof (induction rs arbitrary: i fr fp fc)
  case Nil
  then show ?case by simp
next
  case (Cons r rs)
  show ?case
  proof (cases "fl_less (last fr) r")
    case False
    with Cons.prems have "front_loop rs pv cv (Suc i) (fr, fp, fc) = Inr (fr', fp', fc')"
      by simp
    from Cons.IH[OF this] show ?thesis by simp
  next
    case True
    with Cons.prems obtain p c where
      "front_loop rs pv cv (Suc i) (fr @ [r], fp @ [p], fc @ [c]) = Inr (fr', fp', fc')"
      by (auto simp: bind_eq_Inr)
    from Cons.IH[OF this] show ?thesis by simp
  qed
qed

lemma length_mask_select:
  "mask_select xs m = Inr ys \<Longrightarrow> length ys \<le> length xs"
  using length_filter_le[of snd "zip xs m"]
  by (auto simp: mask_select_def split: if_splits)

lemma get_pareto_front_T_bounds:
  assumes pa: "pareto_arrays st = Some pr"
    and lp: "length (pareto_programs pr) = length (pareto_rewards pr)"
    and lc: "length (pareto_complexities pr) = length (pareto_rewards pr)"
  shows "5 * length (pareto_rewards pr) \<le> snd (get_pareto_front_T d st)
       \<and> snd (get_pareto_front_T d st) \<le> 12 * length (pareto_rewards pr) + 7 + d"
proof -
  define m where "m = length (pareto_rewards pr)"
  define mask where "mask = map pareto_valid (pareto_rewards pr)"
  obtain rv pv cv where rv: "mask_select (pareto_rewards pr) mask = Inr rv"
    and pv: "mask_select (pareto_programs pr) mask = Inr pv"
    and cv: "mask_select (pareto_complexities pr) mask = Inr cv"
    using lp lc by (simp add: mask_select_def mask_def)
  from rv have v: "length rv \<le> m" unfolding m_def by (rule length_mask_select)
  define tail where "tail =
      bind_T (reads 1 (get_item rv 0)) (\<lambda>r0.
      bind_T (reads 1 (get_item pv 0)) (\<lambda>p0.
      bind_T (reads 1 (get_item cv 0)) (\<lambda>c0.
      bind_T (front_loop_T rv pv cv 0 ([r0], [p0], [c0])) (\<lambda>(fr, fp, fc).
      bind_T (reads (length fc + length fp + length fr + length fr) (Inr fr)) (\<lambda>front_r.
        case batch st of None \<Rightarrow> reads 0 (Inl AttributeError)
        | Some b \<Rightarrow>
            reads d (Inr (fc, fp, fr, map (rmse_of (y_target_std b)) front_r)))))))"
  have cost: "snd (get_pareto_front_T d st) = 5 * m + snd tail"
    using pa rv pv cv lp lc
    by (simp add: get_pareto_front_T_def snd_bind_T tail_def m_def mask_def)
  have "snd tail \<le> 3 + 3 * length rv + 4 * (length rv + 1) + d"
  proof -
    have loop: "snd (bind_T (front_loop_T rv pv cv 0 ([r0], [p0], [c0])) (\<lambda>(fr, fp, fc).
      bind_T (reads (length fc + length fp + length fr + length fr) (Inr fr)) (\<lambda>front_r.
        case batch st of None \<Rightarrow> reads 0 (Inl AttributeError)
        | Some b \<Rightarrow>
            reads d (Inr (fc, fp, fr, map (rmse_of (y_target_std b)) front_r)))))
          \<le> 3 * length rv + 4 * (length rv + 1) + d" for r0 p0 c0
    proof (cases "front_loop rv pv cv 0 ([r0], [p0], [c0])")
      case (Inl e)
      then show ?thesis
        using front_loop_T_upper[of rv pv cv 0 "([r0], [p0], [c0])"]
        by (simp add: snd_bind_T front_loop_T_fst)
    next
      case (Inr res)
      obtain fr fp fc where res: "res = (fr, fp, fc)" by (cases res) auto
      from front_loop_length[OF Inr[unfolded res]]
      have "length fr \<le> length rv + 1" "length fp \<le> length rv + 1"
        "length fc \<le> length rv + 1" by simp_all
      then show ?thesis
        using front_loop_T_upper[of rv pv cv 0 "([r0], [p0], [c0])"] Inr res
        by (cases "batch st") (simp_all add: snd_bind_T front_loop_T_fst)
    qed
    show ?thesis
    proof (cases "get_item rv 0")
      case (Inl e)
      then show ?thesis by (simp add: tail_def snd_bind_T)
    next
      case r0: (Inr r0)
      show ?thesis
      proof (cases "get_item pv 0")
        case (Inl e)
        with r0 show ?thesis by (simp add: tail_def snd_bind_T)
      next
        case p0: (Inr p0)
        show ?thesis
        proof (cases "get_item cv 0")
          case (Inl e)
          with r0 p0 show ?thesis by (simp add: tail_def snd_bind_T)
        next
          case (Inr c0)
          with r0 p0 loop[of r0 p0 c0] show ?thesis by (simp add: tail_def snd_bind_T)
        qed
      qed
    qed
  qed
  with v cost show ?thesis unfolding m_def by auto
qed

lemma run_overall_length:
  assumes "run (initialize sp ds, fs0) as = Inr (st, fs)"
    and "map epoch_arg as = map int [0 ..< length as]"
    and "\<forall>a \<in> set as. NaN \<notin> set (rewards a)"
  shows "length (overall_max_R_history st) = length as"
  using run_overall[OF assms] by (simp add: overall_inv_def)

lemma pareto_loop_no_match:
  "\<forall>c \<in> set cs. arg_have (n_complexity b) c = [] \<Longrightarrow> length rs = length cs \<Longrightarrow>
     length ps = length cs \<Longrightarrow> pareto_loop b cr cs rs ps = Inr (rs, ps)"
  by (induction b cr cs rs ps rule: pareto_loop.induct) (simp_all add: pareto_bin_def)

lemma ex_state_bins_logged:
  "\<exists>st' pr'. pareto_logger (ex_state_bins k) = Inr st' \<and> pareto_arrays st' = Some pr'
     \<and> length (pareto_complexities pr') = 10 * (k + 1)"
proof -
  have "arg_have [NaN, NaN] c = []" for c
    by (auto simp: arg_have_def filter_empty_conv less_Suc_eq)
  then have "pareto_loop (ex_batch2\<lparr> n_complexity := [NaN, NaN], max_time_step := k + 1 \<rparr>)
               [Num (1 / 2), Num (1 / 4)] (map int [0 ..< 10 * (k + 1)])
               (replicate (10 * (k + 1)) NaN) (replicate (10 * (k + 1)) None)
             = Inr (replicate (10 * (k + 1)) NaN, replicate (10 * (k + 1)) None)"
    by (intro pareto_loop_no_match) simp_all
  then show ?thesis
    by (simp add: pareto_logger_def ex_state_bins_def initialize_def Let_def)
qed

lemma ex_state_long_returns:
  "returns (log_best (ex_state_long k) (ex_args 2 [Num (1 / 4), Num (1 / 2)]))"
  by (auto simp: returns_iff log_best_def update_overall_def np_argmax_def np_max_def
      get_prog_def get_item_def ex_args_def ex_batch2_def ex_state_long_def Let_def)

text \<open>
  Claim C7, amended. Each counted function returns what the embedded function
  returns, and the reads it makes are bounded as follows. \<open>pareto_logger\<close> tests the
  whole batch once for every complexity bin: a call that returns makes between
  \<open>m * n\<close> and \<open>m * (3 * n + 6)\<close> reads for a grid of \<open>m\<close> bins and a batch of \<open>n\<close>
  programs. \<open>get_pareto_front\<close> makes between \<open>5 * m\<close> and \<open>12 * m + 7 + d\<close> reads for
  \<open>m\<close> bins and \<open>d\<close> entries of \<open>y_target\<close>. The best-so-far tracking of \<open>log\<close> makes at
  most \<open>3 * n + t + 2\<close> reads, where \<open>t\<close> is the length of \<open>overall_max_R_history\<close>, and
  at least \<open>2 * n + t\<close> at a returning call of positive epoch that follows \<open>t\<close> logged
  epochs, because \<open>np.max\<close> reads the whole history at every epoch.
\<close>

theorem scan_read_counts:
  "fst (log_best_T st a) = log_best st a
   \<and> fst (pareto_logger_T st) = pareto_logger st
   \<and> fst (get_pareto_front_T d st) = get_pareto_front st
   \<and> (batch st = Some b \<and> pareto_logger st = Inr st' \<and> pareto_arrays st' = Some pr' \<longrightarrow>
        length (pareto_complexities pr') * length (n_complexity b) \<le> snd (pareto_logger_T st)
        \<and> snd (pareto_logger_T st)
            \<le> length (pareto_complexities pr') * (3 * length (n_complexity b) + 6))
   \<and> (pareto_arrays st = Some pr \<and> length (pareto_programs pr) = length (pareto_rewards pr)
        \<and> length (pareto_complexities pr) = length (pareto_rewards pr) \<longrightarrow>
        5 * length (pareto_rewards pr) \<le> snd (get_pareto_front_T d st)
        \<and> snd (get_pareto_front_T d st) \<le> 12 * length (pareto_rewards pr) + 7 + d)
   \<and> snd (log_best_T st a) \<le> 3 * length (rewards a) + length (overall_max_R_history st) + 2
   \<and> (run (initialize sp ds, fs0) as = Inr (st, fs)
        \<and> map epoch_arg as = map int [0 ..< length as]
        \<and> (\<forall>x \<in> set as. NaN \<notin> set (rewards x))
        \<and> returns (log_best st a) \<and> 0 < epoch_arg a \<longrightarrow>
        2 * length (rewards a) + length as \<le> snd (log_best_T st a))"
proof (intro conjI impI)
  show "fst (log_best_T st a) = log_best st a" by (rule log_best_T_fst)
  show "fst (pareto_logger_T st) = pareto_logger st" by (rule pareto_logger_T_fst)
  show "fst (get_pareto_front_T d st) = get_pareto_front st" by (rule get_pareto_front_T_fst)
  show "snd (log_best_T st a) \<le> 3 * length (rewards a) + length (overall_max_R_history st) + 2"
    by (rule log_best_T_upper)
next
  assume "batch st = Some b \<and> pareto_logger st = Inr st' \<and> pareto_arrays st' = Some pr'"
  then have "length (pareto_complexities pr') * length (n_complexity b) \<le> snd (pareto_logger_T st)
       \<and> snd (pareto_logger_T st)
           \<le> length (pareto_complexities pr') * (3 * length (n_complexity b) + 6)"
    using pareto_logger_T_bounds by blast
  then show "length (pareto_complexities pr') * length (n_complexity b)
               \<le> snd (pareto_logger_T st)"
    and "snd (pareto_logger_T st)
           \<le> length (pareto_complexities pr') * (3 * length (n_complexity b) + 6)"
    by blast+
next
  assume "pareto_arrays st = Some pr \<and> length (pareto_programs pr) = length (pareto_rewards pr)
        \<and> length (pareto_complexities pr) = length (pareto_rewards pr)"
  then have "5 * length (pareto_rewards pr) \<le> snd (get_pareto_front_T d st)
       \<and> snd (get_pareto_front_T d st) \<le> 12 * length (pareto_rewards pr) + 7 + d"
    using get_pareto_front_T_bounds by blast
  then show "5 * length (pareto_rewards pr) \<le> snd (get_pareto_front_T d st)"
    and "snd (get_pareto_front_T d st) \<le> 12 * length (pareto_rewards pr) + 7 + d"
    by blast+
next
  assume h: "run (initialize sp ds, fs0) as = Inr (st, fs)
        \<and> map epoch_arg as = map int [0 ..< length as]
        \<and> (\<forall>x \<in> set as. NaN \<notin> set (rewards x))
        \<and> returns (log_best st a) \<and> 0 < epoch_arg a"
  then have "length (overall_max_R_history st) = length as"
    using run_overall_length by blast
  with h log_best_T_lower[of st a] show "2 * length (rewards a) + length as \<le> snd (log_best_T st a)"
    by simp
qed

theorem scan_read_counts_witness:
  "20 \<le> snd (pareto_logger_T ex_state2) \<and> snd (pareto_logger_T ex_state2) \<le> 120
   \<and> 50 \<le> snd (get_pareto_front_T 5 ex_state2) \<and> snd (get_pareto_front_T 5 ex_state2) \<le> 132
   \<and> 6 \<le> snd (log_best_T ex_state2 (ex_args 2 [Num (1 / 4), Num (1 / 2)]))
   \<and> snd (log_best_T ex_state2 (ex_args 2 [Num (1 / 4), Num (1 / 2)])) \<le> 10"
proof -
  let ?a = "ex_args 2 [Num (1 / 4), Num (1 / 2)]"
  let ?pr = "the (pareto_arrays ex_state2)"
  obtain fs where r: "run (initialize None False, Map.empty) ex_run2 = Inr (ex_state2, fs)"
    using ex_run2_Inr by blast
  have l: "pareto_logger ex_state2 = Inr ex_state2" by code_simp
  have ret: "returns (log_best ex_state2 ?a)" by code_simp
  have h: "batch ex_state2 = Some ex_batch2" "pareto_arrays ex_state2 = Some ?pr"
    "length (pareto_complexities ?pr) = 10" "length (n_complexity ex_batch2) = 2"
    "length (pareto_programs ?pr) = length (pareto_rewards ?pr)"
    "length (pareto_complexities ?pr) = length (pareto_rewards ?pr)"
    "length (pareto_rewards ?pr) = 10"
    "map epoch_arg ex_run2 = map int [0 ..< length ex_run2]"
    "\<forall>x \<in> set ex_run2. NaN \<notin> set (rewards x)" "0 < epoch_arg ?a"
    "length (rewards ?a) = 2" "length ex_run2 = 2"
    "length (overall_max_R_history ex_state2) = 2"
    by (simp_all add: ex_batch2_def ex_state2_def ex_run2_def ex_args_def)
  note t = scan_read_counts [where st = ex_state2 and a = ?a and d = 5 and b = ex_batch2
      and st' = ex_state2 and pr' = ?pr and pr = ?pr and sp = None and ds = False
      and ?fs0.0 = Map.empty and as = ex_run2 and fs = fs]
  from t l h(1,2) have "10 * 2 \<le> snd (pareto_logger_T ex_state2)"
    and "snd (pareto_logger_T ex_state2) \<le> 10 * (3 * 2 + 6)"
    unfolding h(3,4) by blast+
  moreover from t h(2,5,6) have "5 * 10 \<le> snd (get_pareto_front_T 5 ex_state2)"
    and "snd (get_pareto_front_T 5 ex_state2) \<le> 12 * 10 + 7 + 5"
    unfolding h(7) by blast+
  moreover from t r ret h(8,9,10) have "2 * 2 + 2 \<le> snd (log_best_T ex_state2 ?a)"
    unfolding h(11,12) by blast
  moreover from t have "snd (log_best_T ex_state2 ?a) \<le> 3 * 2 + 2 + 2"
    unfolding h(11,13) by blast
  ultimately show ?thesis by simp
qed

text \<open>
  Claim C7 as stated fails: neither update is a single pass that is linear in the batch
  size. At epoch 0, on a batch of two programs and a grid of ten bins, \<open>pareto_logger\<close>
  returns after 36 reads, and no constant bounds its reads by a multiple of the batch
  size, since the number of bins does not depend on it. The best-so-far tracking makes
  8 reads on two rewards after two logged epochs, and its reads grow with the number
  of epochs already logged.
\<close>

theorem single_pass_counterexample:
  "returns (pareto_logger ex_state0) \<and> snd (pareto_logger_T ex_state0) = 36
   \<and> batch ex_state0 = Some ex_batch2 \<and> length (n_complexity ex_batch2) = 2
   \<and> \<not> (\<exists>c. \<forall>st b. batch st = Some b \<and> returns (pareto_logger st) \<longrightarrow>
            snd (pareto_logger_T st) \<le> c * (length (n_complexity b) + 1))
   \<and> returns (log_best ex_state2 (ex_args 2 [Num (1 / 4), Num (1 / 2)]))
   \<and> snd (log_best_T ex_state2 (ex_args 2 [Num (1 / 4), Num (1 / 2)])) = 8
   \<and> \<not> (\<exists>c. \<forall>st a. returns (log_best st a) \<longrightarrow>
            snd (log_best_T st a) \<le> c * (length (rewards a) + 1))"
proof -
  have 0: "returns (pareto_logger ex_state0)" by code_simp
  have 1: "snd (pareto_logger_T ex_state0) = 36" by code_simp
  have 2: "batch ex_state0 = Some ex_batch2" "length (n_complexity ex_batch2) = 2"
    by (simp_all add: ex_state0_def ex_batch2_def)
  have 3: "\<not> (\<exists>c. \<forall>st b. batch st = Some b \<and> returns (pareto_logger st) \<longrightarrow>
            snd (pareto_logger_T st) \<le> c * (length (n_complexity b) + 1))"
  proof
    assume "\<exists>c. \<forall>st b. batch st = Some b \<and> returns (pareto_logger st) \<longrightarrow>
            snd (pareto_logger_T st) \<le> c * (length (n_complexity b) + 1)"
    then obtain c where c: "\<And>st b. batch st = Some b \<Longrightarrow> returns (pareto_logger st) \<Longrightarrow>
            snd (pareto_logger_T st) \<le> c * (length (n_complexity b) + 1)" by blast
    let ?b = "ex_batch2\<lparr> n_complexity := [NaN, NaN], max_time_step := c + 1 \<rparr>"
    have b: "batch (ex_state_bins c) = Some ?b" by (simp add: ex_state_bins_def)
    obtain st' pr' where l: "pareto_logger (ex_state_bins c) = Inr st'"
      and pa: "pareto_arrays st' = Some pr'"
      and m: "length (pareto_complexities pr') = 10 * (c + 1)"
      using ex_state_bins_logged by blast
    from l have "returns (pareto_logger (ex_state_bins c))" by (simp add: returns_iff)
    from c[OF b this] have "snd (pareto_logger_T (ex_state_bins c)) \<le> c * 3" by simp
    moreover from pareto_logger_T_bounds[OF b l pa]
    have "10 * (c + 1) * 2 \<le> snd (pareto_logger_T (ex_state_bins c))" by (simp add: m)
    ultimately show False by simp
  qed
  have 4: "returns (log_best ex_state2 (ex_args 2 [Num (1 / 4), Num (1 / 2)]))" by code_simp
  have 5: "snd (log_best_T ex_state2 (ex_args 2 [Num (1 / 4), Num (1 / 2)])) = 8"
    by code_simp
  have 6: "\<not> (\<exists>c. \<forall>st a. returns (log_best st a) \<longrightarrow>
            snd (log_best_T st a) \<le> c * (length (rewards a) + 1))"
  proof
    assume "\<exists>c. \<forall>st a. returns (log_best st a) \<longrightarrow>
            snd (log_best_T st a) \<le> c * (length (rewards a) + 1)"
    then obtain c where c: "\<And>st a. returns (log_best st a) \<Longrightarrow>
            snd (log_best_T st a) \<le> c * (length (rewards a) + 1)" by blast
    let ?st = "ex_state_long (3 * c)"
    let ?a = "ex_args 2 [Num (1 / 4), Num (1 / 2)]"
    have r: "length (rewards ?a) = 2" and e: "0 < epoch_arg ?a" by (simp_all add: ex_args_def)
    have t: "length (overall_max_R_history ?st) = 3 * c + 1" by (simp add: ex_state_long_def)
    from c[OF ex_state_long_returns, of "3 * c"] have "snd (log_best_T ?st ?a) \<le> c * 3"
      by (simp add: r)
    moreover from log_best_T_lower[OF ex_state_long_returns e, of "3 * c"]
    have "2 * 2 + (3 * c + 1) \<le> snd (log_best_T ?st ?a)" by (simp add: r t)
    ultimately show False by simp
  qed
  from 0 1 2 3 4 5 6 show ?thesis by blast
qed

end
